theory Spec2Isabelle
  imports Complex_Main "HOL-Library.Monad_Syntax"
begin

section \<open>Single-precision values in exact arithmetic\<close>

text \<open>
  The C++ type \<open>float\<close> is modelled by the reals extended with the three special
  values the source relies on: both infinities and NaN (\<open>quad_equation\<close> returns NaN
  for an absent root and \<open>+infinity\<close> as a marker, \<open>time_to_speed\<close> returns
  \<open>+infinity\<close> for "never"). Finite values are computed exactly (no rounding, no
  overflow); the special values follow IEEE 754. There is one zero, which divides
  like \<open>+0\<close>.
\<close>

datatype flt = Fin real | PInf | NInf | NaN

instantiation flt :: "{plus, minus, uminus, times, inverse, ord}"
begin

fun uminus_flt :: "flt \<Rightarrow> flt" where
  "uminus_flt (Fin x) = Fin (- x)"
| "uminus_flt PInf = NInf"
| "uminus_flt NInf = PInf"
| "uminus_flt NaN = NaN"

fun plus_flt :: "flt \<Rightarrow> flt \<Rightarrow> flt" where
  "plus_flt NaN _ = NaN"
| "plus_flt _ NaN = NaN"
| "plus_flt (Fin x) (Fin y) = Fin (x + y)"
| "plus_flt PInf NInf = NaN"
| "plus_flt NInf PInf = NaN"
| "plus_flt PInf _ = PInf"
| "plus_flt NInf _ = NInf"
| "plus_flt (Fin x) b = b"

definition minus_flt :: "flt \<Rightarrow> flt \<Rightarrow> flt" where
  "minus_flt a b = a + (- b)"

fun times_flt :: "flt \<Rightarrow> flt \<Rightarrow> flt" where
  "times_flt NaN _ = NaN"
| "times_flt _ NaN = NaN"
| "times_flt (Fin x) (Fin y) = Fin (x * y)"
| "times_flt (Fin x) PInf = (if x = 0 then NaN else if 0 < x then PInf else NInf)"
| "times_flt (Fin x) NInf = (if x = 0 then NaN else if 0 < x then NInf else PInf)"
| "times_flt PInf (Fin y) = (if y = 0 then NaN else if 0 < y then PInf else NInf)"
| "times_flt NInf (Fin y) = (if y = 0 then NaN else if 0 < y then NInf else PInf)"
| "times_flt PInf PInf = PInf"
| "times_flt PInf NInf = NInf"
| "times_flt NInf PInf = NInf"
| "times_flt NInf NInf = PInf"

fun divide_flt :: "flt \<Rightarrow> flt \<Rightarrow> flt" where
  "divide_flt NaN _ = NaN"
| "divide_flt _ NaN = NaN"
| "divide_flt (Fin x) (Fin y) =
     (if y = 0 then (if x = 0 then NaN else if 0 < x then PInf else NInf)
      else Fin (x / y))"
| "divide_flt (Fin x) PInf = Fin 0"
| "divide_flt (Fin x) NInf = Fin 0"
| "divide_flt PInf (Fin y) = (if y < 0 then NInf else PInf)"
| "divide_flt NInf (Fin y) = (if y < 0 then PInf else NInf)"
| "divide_flt PInf PInf = NaN"
| "divide_flt PInf NInf = NaN"
| "divide_flt NInf PInf = NaN"
| "divide_flt NInf NInf = NaN"

definition inverse_flt :: "flt \<Rightarrow> flt" where
  "inverse_flt a = divide (Fin 1) a"

fun less_flt :: "flt \<Rightarrow> flt \<Rightarrow> bool" where
  "less_flt NaN _ = False"
| "less_flt _ NaN = False"
| "less_flt (Fin x) (Fin y) = (x < y)"
| "less_flt _ NInf = False"
| "less_flt PInf _ = False"
| "less_flt NInf _ = True"
| "less_flt (Fin x) PInf = True"

fun less_eq_flt :: "flt \<Rightarrow> flt \<Rightarrow> bool" where
  "less_eq_flt NaN _ = False"
| "less_eq_flt _ NaN = False"
| "less_eq_flt (Fin x) (Fin y) = (x \<le> y)"
| "less_eq_flt NInf _ = True"
| "less_eq_flt _ PInf = True"
| "less_eq_flt PInf _ = False"
| "less_eq_flt (Fin x) NInf = False"

instance ..

end

text \<open>The comparison \<open>==\<close> of two floats: false as soon as one side is NaN.\<close>

definition feq :: "flt \<Rightarrow> flt \<Rightarrow> bool" where
  "feq a b = (a \<noteq> NaN \<and> b \<noteq> NaN \<and> a = b)"

definition isnan :: "flt \<Rightarrow> bool" where
  "isnan a = (a = NaN)"

definition isinf :: "flt \<Rightarrow> bool" where
  "isinf a = (a = PInf \<or> a = NInf)"

fun fsqrt :: "flt \<Rightarrow> flt" where
  "fsqrt (Fin x) = (if x < 0 then NaN else Fin (sqrt x))"
| "fsqrt PInf = PInf"
| "fsqrt NInf = NaN"
| "fsqrt NaN = NaN"

fun ffloor :: "flt \<Rightarrow> flt" where
  "ffloor (Fin x) = Fin (of_int \<lfloor>x\<rfloor>)"
| "ffloor a = a"

fun fceil :: "flt \<Rightarrow> flt" where
  "fceil (Fin x) = Fin (of_int \<lceil>x\<rceil>)"
| "fceil a = a"

text \<open>\<open>std::round\<close> rounds halfway cases away from zero.\<close>

fun fround :: "flt \<Rightarrow> flt" where
  "fround (Fin x) = Fin (if 0 \<le> x then of_int \<lfloor>x + 1 / 2\<rfloor> else - of_int \<lfloor>- x + 1 / 2\<rfloor>)"
| "fround a = a"

text \<open>\<open>std::min(a, b)\<close> is \<open>b < a ? b : a\<close> and \<open>std::max(a, b)\<close> is \<open>a < b ? b : a\<close>.\<close>

definition std_min :: "flt \<Rightarrow> flt \<Rightarrow> flt" where
  "std_min a b = (if b < a then b else a)"

definition std_max :: "flt \<Rightarrow> flt \<Rightarrow> flt" where
  "std_max a b = (if a < b then b else a)"


section \<open>The quadratic solver (animation.cpp)\<close>

definition quad_equation :: "flt \<Rightarrow> flt \<Rightarrow> flt \<Rightarrow> flt \<times> flt" where
  "quad_equation a b c =
     (if feq a (Fin 0) then
        (if feq b (Fin 0) then
           (if feq c (Fin 0) then (PInf, NaN) else (NaN, NaN))
         else (- c / b, NaN))
      else
        (let d = b * b - Fin 4 * a * c in
         if Fin 0 < d then
           ((- b + fsqrt d) / (Fin 2 * a), (- b - fsqrt d) / (Fin 2 * a))
         else if feq d (Fin 0) then (- b / (Fin 2 * a), NaN)
         else (NaN, NaN)))"


section \<open>Motion of a given order (animation.hpp)\<close>

datatype MotionType = stationary | uniform | accelerated | jerked

fun mt_rank :: "MotionType \<Rightarrow> nat" where
  "mt_rank stationary = 0"
| "mt_rank uniform = 1"
| "mt_rank accelerated = 2"
| "mt_rank jerked = 3"

definition mt_ge :: "MotionType \<Rightarrow> MotionType \<Rightarrow> bool" where
  "mt_ge lhs rhs = (mt_rank lhs \<ge> mt_rank rhs)"

text \<open>
  \<open>Motion<MT>\<close>: the template argument is the field \<open>MT\<close>, which no operation
  changes. The component array has \<open>MT + 1\<close> entries in the source; the model keeps
  all four slots and, like the source's accessors, never reads or writes a slot above
  the order.
\<close>

record Motion =
  MT :: MotionType
  c_pos :: flt
  c_spd :: flt
  c_acc :: flt
  c_jrk :: flt

definition get_position :: "'a Motion_scheme \<Rightarrow> flt" where
  "get_position m = c_pos m"

definition set_positon :: "flt \<Rightarrow> 'a Motion_scheme \<Rightarrow> 'a Motion_scheme" where
  "set_positon p m = m\<lparr>c_pos := p\<rparr>"

definition get_speed :: "'a Motion_scheme \<Rightarrow> flt" where
  "get_speed m = (if mt_ge (MT m) uniform then c_spd m else Fin 0)"

definition set_speed :: "flt \<Rightarrow> 'a Motion_scheme \<Rightarrow> 'a Motion_scheme" where
  "set_speed s m = (if mt_ge (MT m) uniform then m\<lparr>c_spd := s\<rparr> else m)"

definition get_acceleration :: "'a Motion_scheme \<Rightarrow> flt" where
  "get_acceleration m = (if mt_ge (MT m) accelerated then c_acc m else Fin 0)"

definition set_acceleration :: "flt \<Rightarrow> 'a Motion_scheme \<Rightarrow> 'a Motion_scheme" where
  "set_acceleration a m = (if mt_ge (MT m) accelerated then m\<lparr>c_acc := a\<rparr> else m)"

definition get_jerk :: "'a Motion_scheme \<Rightarrow> flt" where
  "get_jerk m = (if mt_ge (MT m) jerked then c_jrk m else Fin 0)"

definition set_jerk :: "flt \<Rightarrow> 'a Motion_scheme \<Rightarrow> 'a Motion_scheme" where
  "set_jerk j m = (if mt_ge (MT m) jerked then m\<lparr>c_jrk := j\<rparr> else m)"

text \<open>\<open>Motion::advance\<close>: the polynomial step, in the source's Horner form.\<close>

definition Motion_advance :: "flt \<Rightarrow> 'a Motion_scheme \<Rightarrow> 'a Motion_scheme" where
  "Motion_advance dt m =
     (let j = get_jerk m; a = get_acceleration m; v = get_speed m; s = get_position m in
      set_acceleration (a + j * dt)
        (set_speed (v + (a + j * dt / Fin 2) * dt)
          (set_positon (s + (v + (a / Fin 2 + j * dt / Fin 6) * dt) * dt) m)))"

text \<open>
  \<open>Motion::time_to_speed\<close>: the first component is the returned time, the second is
  what the call leaves in \<open>*second_res\<close> when that pointer is given.
\<close>

definition time_to_speed :: "flt \<Rightarrow> 'a Motion_scheme \<Rightarrow> flt \<times> flt" where
  "time_to_speed v1 m =
     (let j = get_jerk m; a = get_acceleration m; v0 = get_speed m in
      case MT m of
        stationary \<Rightarrow> (if feq v1 (Fin 0) then Fin 0 else PInf, PInf)
      | uniform \<Rightarrow> (if feq v1 v0 then Fin 0 else PInf, PInf)
      | accelerated \<Rightarrow>
          (let t = (v1 - v0) / a in if t < Fin 0 then (PInf, PInf) else (t, PInf))
      | jerked \<Rightarrow>
          (let roots = quad_equation (j / Fin 2) a (v0 - v1) in
           if isnan (fst roots) then (PInf, PInf)
           else if isnan (snd roots) then
             (if fst roots < Fin 0 then (PInf, PInf) else (fst roots, PInf))
           else
             (let min_root = std_min (fst roots) (snd roots);
                  max_root = std_max (fst roots) (snd roots) in
              if max_root < Fin 0 then (PInf, PInf)
              else if min_root < Fin 0 then (max_root, PInf)
              else (min_root, max_root))))"


section \<open>Motion inside a speed corridor (animation.hpp)\<close>

record SpeedLimitedMotion = Motion +
  m_max_speed :: flt
  m_min_speed :: flt

definition limit_reached :: "'a SpeedLimitedMotion_scheme \<Rightarrow> bool" where
  "limit_reached m = (get_speed m \<le> m_min_speed m \<or> m_max_speed m \<le> get_speed m)"

text \<open>\<open>uniform_advance\<close> keeps the speed: only position and acceleration move.\<close>

definition uniform_advance ::
  "flt \<Rightarrow> 'a SpeedLimitedMotion_scheme \<Rightarrow> 'a SpeedLimitedMotion_scheme" where
  "uniform_advance dt m =
     set_acceleration (get_acceleration m + get_jerk m * dt)
       (set_positon (get_position m + get_speed m * dt) m)"

record ExtremumHit =
  hit_time :: flt
  hit_value :: flt

text \<open>
  \<open>std::sort\<close> on the hit times. Insertion from the right keeps the input order of
  hits with equal times; \<open>std::sort\<close> promises no order among them.
\<close>

fun insort_hit :: "ExtremumHit \<Rightarrow> ExtremumHit list \<Rightarrow> ExtremumHit list" where
  "insort_hit h [] = [h]"
| "insort_hit h (x # xs) =
     (if hit_time x < hit_time h then x # insort_hit h xs else h # x # xs)"

fun sort_hits :: "ExtremumHit list \<Rightarrow> ExtremumHit list" where
  "sort_hits [] = []"
| "sort_hits (h # hs) = insort_hit h (sort_hits hs)"

text \<open>
  One pass through the body of the \<open>for\<close> loop of \<open>SpeedLimitedMotion::advance\<close>, at
  index \<open>i\<close>: the motion after the sub-step.
\<close>

definition advance_step ::
  "ExtremumHit list \<Rightarrow> flt \<Rightarrow> nat \<Rightarrow> flt \<Rightarrow> 'a SpeedLimitedMotion_scheme
     \<Rightarrow> 'a SpeedLimitedMotion_scheme" where
  "advance_step extremums dt i prev_t m =
     (let is_time_up = (dt \<le> hit_time (extremums ! i));
          t_spent = (if is_time_up then dt else hit_time (extremums ! i)) - prev_t;
          is_max = feq (hit_value (extremums ! i)) (m_max_speed m);
          is_exceeded = (if is_max then m_max_speed m \<le> get_speed m
                         else get_speed m \<le> m_min_speed m);
          naturaly_limited = (if is_max then Fin 0 < get_jerk m
                              else get_jerk m < Fin 0);
          is_prev_same = (0 < i \<and>
            feq (hit_value (extremums ! (i - 1))) (hit_value (extremums ! i)));
          will_reduce = (is_prev_same \<and> naturaly_limited)
      in if is_exceeded \<and> \<not> will_reduce then uniform_advance t_spent m
         else (let m1 = Motion_advance t_spent m in
               if \<not> is_time_up then set_speed (hit_value (extremums ! i)) m1
               else m1))"

text \<open>
  The loop from index \<open>i\<close> on; it returns \<open>prev_t\<close> and the motion as they are when
  the loop is left (by its condition or by \<open>break\<close>).
\<close>

function advance_loop ::
  "ExtremumHit list \<Rightarrow> flt \<Rightarrow> nat \<Rightarrow> flt \<Rightarrow> 'a SpeedLimitedMotion_scheme
     \<Rightarrow> flt \<times> 'a SpeedLimitedMotion_scheme" where
  "advance_loop extremums dt i prev_t m =
     (if i < length extremums \<and> \<not> isinf (hit_time (extremums ! i)) then
        (if dt \<le> hit_time (extremums ! i) then (dt, advance_step extremums dt i prev_t m)
         else advance_loop extremums dt (i + 1) (hit_time (extremums ! i))
                (advance_step extremums dt i prev_t m))
      else (prev_t, m))"
  by pat_completeness auto
termination
  by (relation "measure (\<lambda>(extremums, dt, i, prev_t, m). length extremums - i)") auto

declare advance_loop.simps [simp del]

definition SpeedLimitedMotion_advance ::
  "flt \<Rightarrow> 'a SpeedLimitedMotion_scheme \<Rightarrow> 'a SpeedLimitedMotion_scheme" where
  "SpeedLimitedMotion_advance dt m =
     (let (time_to_max1, time_to_max2) = time_to_speed (m_max_speed m) m;
          (time_to_min1, time_to_min2) = time_to_speed (m_min_speed m) m;
          extremums = sort_hits
            [\<lparr>hit_time = time_to_max1, hit_value = m_max_speed m\<rparr>,
             \<lparr>hit_time = time_to_max2, hit_value = m_max_speed m\<rparr>,
             \<lparr>hit_time = time_to_min1, hit_value = m_min_speed m\<rparr>,
             \<lparr>hit_time = time_to_min2, hit_value = m_min_speed m\<rparr>];
          (prev_t, m') = advance_loop extremums dt 0 (Fin 0) m
      in if prev_t < dt then uniform_advance (dt - prev_t) m' else m')"

definition get_max_speed :: "'a SpeedLimitedMotion_scheme \<Rightarrow> flt" where
  "get_max_speed m = m_max_speed m"

definition get_min_speed :: "'a SpeedLimitedMotion_scheme \<Rightarrow> flt" where
  "get_min_speed m = m_min_speed m"


section \<open>The reel controller (animation.cpp)\<close>

datatype State = rest | had_impact | moving

record ReelMotion = SpeedLimitedMotion +
  m_state :: State
  m_length :: flt
  m_min_speed_proxy :: flt
  m_max_speed_proxy :: flt

text \<open>
  A failed \<open>assert\<close> is the result \<open>None\<close>. The constructor starts from the defaults
  of \<open>SpeedLimitedMotion\<close>: both bounds and all four components zero.
\<close>

definition ReelMotion_new :: "flt \<Rightarrow> ReelMotion option" where
  "ReelMotion_new reel_length =
     (if Fin 0 < reel_length then
        Some \<lparr>MT = jerked, c_pos = Fin 0, c_spd = Fin 0, c_acc = Fin 0, c_jrk = Fin 0,
              m_max_speed = Fin 0, m_min_speed = Fin 0,
              m_state = rest, m_length = reel_length,
              m_min_speed_proxy = Fin 0, m_max_speed_proxy = Fin 0\<rparr>
      else None)"

definition set_reel_length :: "flt \<Rightarrow> ReelMotion \<Rightarrow> ReelMotion option" where
  "set_reel_length len r =
     (if Fin 0 < len then
        (let r1 = r\<lparr>m_length := len\<rparr> in
         if m_length r1 \<le> get_position r1 then
           (let rotations_made = ffloor (get_position r1 / m_length r1) in
            Some (set_positon (get_position r1 - rotations_made * m_length r1) r1))
         else Some r1)
      else None)"

definition stop_in :: "flt \<Rightarrow> flt \<Rightarrow> ReelMotion \<Rightarrow> ReelMotion option" where
  "stop_in end_position t r =
     (if feq t (Fin 0) then None
      else if \<not> end_position \<le> m_length r then None
      else
        (let v = get_speed r; s0 = get_position r; s1 = end_position; l = m_length r;
             k = fceil ((v * t / Fin 3 + s0 - s1) / l);
             j = Fin 12 * (s0 - s1 - k * l + v * t / Fin 2) / (t * t * t);
             a = - v / t - j * t / Fin 2
         in Some ((set_acceleration a (set_jerk j r))
                    \<lparr>m_min_speed := Fin 0, m_max_speed := PInf, m_state := had_impact\<rparr>)))"

text \<open>The temporary \<open>AcceleratedMotion\<close> of the two ramp operations.\<close>

definition AcceleratedMotion :: "flt \<Rightarrow> flt \<Rightarrow> flt \<Rightarrow> Motion" where
  "AcceleratedMotion acceleration speed position =
     \<lparr>MT = accelerated, c_pos = position, c_spd = speed, c_acc = acceleration,
      c_jrk = Fin 0\<rparr>"

definition nccry_acc_to_speed :: "flt \<Rightarrow> flt \<Rightarrow> Motion \<Rightarrow> flt option" where
  "nccry_acc_to_speed speed t accm =
     (if feq t (Fin 0) then None else Some ((speed - c_spd accm) / t))"

definition go_full_speed_in :: "flt \<Rightarrow> ReelMotion \<Rightarrow> ReelMotion option" where
  "go_full_speed_in t r =
     (let r1 = r\<lparr>m_max_speed := m_max_speed_proxy r\<rparr>;
          accm = AcceleratedMotion (get_acceleration r1) (get_speed r1) (get_position r1)
      in case nccry_acc_to_speed (m_max_speed r1) t accm of
           None \<Rightarrow> None
         | Some new_acc \<Rightarrow> Some ((set_acceleration new_acc r1)\<lparr>m_state := had_impact\<rparr>))"

definition slow_to_minimal_in :: "flt \<Rightarrow> ReelMotion \<Rightarrow> ReelMotion option" where
  "slow_to_minimal_in t r =
     (let r1 = r\<lparr>m_min_speed := m_min_speed_proxy r\<rparr>;
          accm = AcceleratedMotion (get_acceleration r1) (get_speed r1) (get_position r1)
      in case nccry_acc_to_speed (m_min_speed r1) t accm of
           None \<Rightarrow> None
         | Some new_acc \<Rightarrow> Some (set_acceleration new_acc r1))"

definition ReelMotion_set_min_speed :: "flt \<Rightarrow> ReelMotion \<Rightarrow> ReelMotion" where
  "ReelMotion_set_min_speed speed r = r\<lparr>m_min_speed_proxy := speed\<rparr>"

definition ReelMotion_set_max_speed :: "flt \<Rightarrow> ReelMotion \<Rightarrow> ReelMotion" where
  "ReelMotion_set_max_speed speed r = r\<lparr>m_max_speed_proxy := speed\<rparr>"

definition full_stop :: "ReelMotion \<Rightarrow> ReelMotion" where
  "full_stop r =
     (let r1 = set_jerk (Fin 0) (set_acceleration (Fin 0) (set_speed (Fin 0) r)) in
      (set_positon (fround (get_position r1)) r1)\<lparr>m_state := rest\<rparr>)"

definition ReelMotion_advance :: "flt \<Rightarrow> ReelMotion \<Rightarrow> ReelMotion" where
  "ReelMotion_advance dt r =
     (if feq dt (Fin 0) then r
      else
        (let r1 = (case m_state r of
                     had_impact \<Rightarrow> (SpeedLimitedMotion_advance dt r)\<lparr>m_state := moving\<rparr>
                   | moving \<Rightarrow>
                       (let stop_time = fst (time_to_speed (Fin 0) r) in
                        if stop_time \<le> dt then full_stop (SpeedLimitedMotion_advance stop_time r)
                        else
                          (let r2 = SpeedLimitedMotion_advance dt r in
                           if get_max_speed r2 \<le> Fin 0 then full_stop r2 else r2))
                   | rest \<Rightarrow> r);
             rotations_made = ffloor (get_position r1 / m_length r1)
         in set_positon (get_position r1 - rotations_made * m_length r1) r1))"


section \<open>Symbols (symbol.hpp, configuration.hpp)\<close>

datatype SymbolFamily = special | fruit | suit | jewel | SymbolFamily_number

datatype Symbol =
    lucky_seven | cross | respin | question
  | apple | carrot | corn | grape
  | spade | club | heart | diamond
  | amethyst | emerald | topaz | crystal
  | Symbol_number

fun get_symbol_family :: "Symbol \<Rightarrow> SymbolFamily" where
  "get_symbol_family lucky_seven = special"
| "get_symbol_family respin = special"
| "get_symbol_family question = special"
| "get_symbol_family cross = special"
| "get_symbol_family apple = fruit"
| "get_symbol_family carrot = fruit"
| "get_symbol_family corn = fruit"
| "get_symbol_family grape = fruit"
| "get_symbol_family spade = suit"
| "get_symbol_family club = suit"
| "get_symbol_family heart = suit"
| "get_symbol_family diamond = suit"
| "get_symbol_family amethyst = jewel"
| "get_symbol_family emerald = jewel"
| "get_symbol_family topaz = jewel"
| "get_symbol_family crystal = jewel"
| "get_symbol_family Symbol_number = SymbolFamily_number"

definition g_nreels :: nat where
  "g_nreels = 5"


section \<open>The combination resolver (combination.cpp)\<close>

text \<open>
  The \<open>uint32_t\<close> indices and sizes are natural numbers: every value stays far below
  \<open>2\<^sup>3\<^sup>2\<close>. Where the source steps an index back and forth (\<open>--i\<close> then \<open>++i\<close>, which
  at \<open>i = 0\<close> wraps around and back) the model keeps \<open>i\<close>. A read or write outside a
  vector or the row is undefined behaviour in the source and the result \<open>None\<close> here,
  as is a failed \<open>assert\<close>.
\<close>

record Range =
  r_begin :: nat
  r_size :: nat

record Result =
  combo_range :: Range
  points :: nat
  free_speen :: bool

definition big_multiplier :: nat where
  "big_multiplier = 5"

definition small_multiplier :: nat where
  "small_multiplier = 2"

fun get_symbol_base_value :: "Symbol \<Rightarrow> nat" where
  "get_symbol_base_value lucky_seven = 32"
| "get_symbol_base_value cross = 12"
| "get_symbol_base_value respin = 12"
| "get_symbol_base_value question = 12"
| "get_symbol_base_value apple = 8"
| "get_symbol_base_value carrot = 8"
| "get_symbol_base_value corn = 8"
| "get_symbol_base_value grape = 8"
| "get_symbol_base_value spade = 16"
| "get_symbol_base_value club = 16"
| "get_symbol_base_value heart = 16"
| "get_symbol_base_value diamond = 16"
| "get_symbol_base_value amethyst = 24"
| "get_symbol_base_value emerald = 24"
| "get_symbol_base_value topaz = 24"
| "get_symbol_base_value crystal = 24"
| "get_symbol_base_value Symbol_number = 0"

definition read_at :: "'a list \<Rightarrow> nat \<Rightarrow> 'a option" where
  "read_at xs i = (if i < length xs then Some (xs ! i) else None)"

definition write_at :: "'a list \<Rightarrow> nat \<Rightarrow> 'a \<Rightarrow> 'a list option" where
  "write_at xs i v = (if i < length xs then Some (xs[i := v]) else None)"

text \<open>\<open>vector::erase\<close> of the \<open>n\<close> elements from index \<open>i\<close> on.\<close>

definition erase :: "'a list \<Rightarrow> nat \<Rightarrow> nat \<Rightarrow> 'a list" where
  "erase xs i n = take i xs @ drop (i + n) xs"

text \<open>
  \<open>get_max_equal_range\<close>: the loop from index \<open>i\<close> on, with the locals \<open>cur\<close>,
  \<open>maximal\<close> and \<open>prev_val\<close>.
\<close>

function max_equal_loop ::
  "Symbol list \<Rightarrow> nat \<Rightarrow> nat \<Rightarrow> Range \<Rightarrow> Range \<Rightarrow> Symbol \<Rightarrow> Range option" where
  "max_equal_loop data sz i cur maximal prev_val =
     (if i < sz then
        do {
          d \<leftarrow> read_at data i;
          if d = prev_val then
            max_equal_loop data sz (i + 1) (cur\<lparr>r_size := r_size cur + 1\<rparr>) maximal prev_val
          else
            max_equal_loop data sz (i + 1) \<lparr>r_begin = i, r_size = 1\<rparr>
              (if r_size maximal < r_size cur then cur else maximal) d
        }
      else Some (if r_size maximal < r_size cur then cur else maximal))"
  by pat_completeness auto
termination
  by (relation "measure (\<lambda>(data, sz, i, cur, maximal, prev_val). sz - i)") auto

declare max_equal_loop.simps [simp del]

definition get_max_equal_range :: "Symbol list \<Rightarrow> nat \<Rightarrow> Range option" where
  "get_max_equal_range data sz =
     (if sz = 0 then None
      else do {
        d0 \<leftarrow> read_at data 0;
        max_equal_loop data sz 1 \<lparr>r_begin = 0, r_size = 1\<rparr> \<lparr>r_begin = 0, r_size = 1\<rparr> d0
      })"

text \<open>
  \<open>get_ranges\<close>. The reference \<open>prev_range\<close> is the slot \<open>ranges[ranges[i - 1].begin]\<close>;
  \<open>fill_ranges\<close> is the inner loop \<open>ranges[j] = prev_range\<close> for \<open>j\<close> up to
  \<open>range_end\<close>, with \<open>p\<close> the index of that slot.
\<close>

function fill_ranges :: "Range list \<Rightarrow> nat \<Rightarrow> nat \<Rightarrow> nat \<Rightarrow> Range list option" where
  "fill_ranges ranges p j range_end =
     (if j < range_end then
        do {
          prev_range \<leftarrow> read_at ranges p;
          ranges1 \<leftarrow> write_at ranges j prev_range;
          fill_ranges ranges1 p (j + 1) range_end
        }
      else Some ranges)"
  by pat_completeness auto
termination
  by (relation "measure (\<lambda>(ranges, p, j, range_end). range_end - j)") auto

declare fill_ranges.simps [simp del]

function get_ranges_loop :: "Symbol list \<Rightarrow> nat \<Rightarrow> Range list \<Rightarrow> Range list option" where
  "get_ranges_loop data i ranges =
     (if i < length data then
        do {
          left \<leftarrow> read_at ranges (i - 1);
          let p = r_begin left;
          prev_range \<leftarrow> read_at ranges p;
          d \<leftarrow> read_at data i;
          dp \<leftarrow> read_at data (r_begin prev_range);
          if d = dp then
            do {
              ri \<leftarrow> read_at ranges i;
              ranges1 \<leftarrow> write_at ranges i (ri\<lparr>r_begin := r_begin prev_range\<rparr>);
              prev_range1 \<leftarrow> read_at ranges1 p;
              ranges2 \<leftarrow> write_at ranges1 p (prev_range1\<lparr>r_size := r_size prev_range1 + 1\<rparr>);
              get_ranges_loop data (i + 1) ranges2
            }
          else
            do {
              ranges1 \<leftarrow> fill_ranges ranges p (r_begin prev_range + 1)
                           (r_begin prev_range + r_size prev_range);
              ranges2 \<leftarrow> write_at ranges1 i \<lparr>r_begin = i, r_size = 1\<rparr>;
              get_ranges_loop data (i + 1) ranges2
            }
        }
      else Some ranges)"
  by pat_completeness auto
termination
  by (relation "measure (\<lambda>(data, i, ranges). length data - i)") auto

declare get_ranges_loop.simps [simp del]

definition get_ranges :: "Symbol list \<Rightarrow> Range list option" where
  "get_ranges data =
     (if length data = 0 then None
      else do {
        ranges0 \<leftarrow> write_at (replicate (length data) \<lparr>r_begin = 0, r_size = 0\<rparr>) 0
                     \<lparr>r_begin = 0, r_size = 1\<rparr>;
        ranges1 \<leftarrow> get_ranges_loop data 1 ranges0;
        final \<leftarrow> read_at ranges1 (length data - 1);
        let p = r_begin final;
        last_range \<leftarrow> read_at ranges1 p;
        ranges2 \<leftarrow> fill_ranges ranges1 p (r_begin last_range + 1) (length data);
        Some (remove1 \<lparr>r_begin = 0, r_size = 0\<rparr> (remdups_adj ranges2))
      })"

text \<open>The object: the row and the ranges that \<open>get_result\<close> rewrites pass by pass.\<close>

record Combination =
  m_row :: "Symbol list"
  m_ranges :: "Range list"

text \<open>The row type \<open>std::array<Symbol, g_nreels>\<close> admits rows of \<open>g_nreels\<close> symbols only.\<close>

definition Combination_new :: "Symbol list \<Rightarrow> Combination option" where
  "Combination_new row =
     (if length row \<noteq> g_nreels then None
      else do {
        ranges \<leftarrow> get_ranges row;
        Some \<lparr>m_row = row, m_ranges = ranges\<rparr>
      })"

text \<open>First loop of \<open>apply_questions\<close>: a wildcard range between two ranges of one symbol.\<close>

function questions_connect :: "Symbol list \<Rightarrow> nat \<Rightarrow> Range list \<Rightarrow> Range list option" where
  "questions_connect row i ranges =
     (if i < length ranges - 1 then
        do {
          ri \<leftarrow> read_at ranges i;
          rl \<leftarrow> read_at ranges (i - 1);
          rr \<leftarrow> read_at ranges (i + 1);
          s \<leftarrow> read_at row (r_begin ri);
          ls \<leftarrow> read_at row (r_begin rl);
          rs \<leftarrow> read_at row (r_begin rr);
          if s = question \<and> ls = rs then
            questions_connect row i
              (erase (ranges[i - 1 := rl\<lparr>r_size := r_size rl + (r_size ri + r_size rr)\<rparr>]) i 2)
          else questions_connect row (i + 1) ranges
        }
      else Some ranges)"
  by pat_completeness auto
termination
  by (relation "measure (\<lambda>(row, i, ranges). length ranges - i)") (auto simp: erase_def)

declare questions_connect.simps [simp del]

text \<open>
  Second loop of \<open>apply_questions\<close>. \<open>biggest_near\<close> is the choice of \<open>max_range\<close>:
  the index of the chosen neighbour, or \<open>None\<close> for the local \<open>dummy\<close>.
\<close>

definition biggest_near :: "Range list \<Rightarrow> nat \<Rightarrow> nat option option" where
  "biggest_near ranges i =
     (if i = 0 then Some (Some (i + 1))
      else if i = length ranges - 1 then Some (Some (i - 1))
      else do {
        rl \<leftarrow> read_at ranges (i - 1);
        rr \<leftarrow> read_at ranges (i + 1);
        Some (if r_size rl < r_size rr then Some (i + 1)
              else if r_size rr < r_size rl then Some (i - 1)
              else None)
      })"

text \<open>
  One visit of index \<open>i\<close> by the second loop, for a range whose first symbol is the
  wildcard: the next index and the ranges.
\<close>

definition questions_expand_step :: "nat \<Rightarrow> Range list \<Rightarrow> (nat \<times> Range list) option" where
  "questions_expand_step i ranges =
     do {
       ri \<leftarrow> read_at ranges i;
       near \<leftarrow> biggest_near ranges i;
       max_range \<leftarrow> (case near of None \<Rightarrow> Some \<lparr>r_begin = 0, r_size = 0\<rparr>
                      | Some n \<Rightarrow> read_at ranges n);
       if r_size max_range < r_size ri then Some (i + 1, ranges)
       else
         (let merged = \<lparr>r_begin = min (r_begin max_range) (r_begin ri),
                        r_size = r_size max_range + r_size ri\<rparr>;
              ranges1 = (case near of None \<Rightarrow> ranges | Some n \<Rightarrow> ranges[n := merged])
          in Some (i, erase ranges1 i 1))
     }"

function questions_expand :: "Symbol list \<Rightarrow> nat \<Rightarrow> Range list \<Rightarrow> Range list option" where
  "questions_expand row i ranges =
     (if i < length ranges then
        do {
          ri \<leftarrow> read_at ranges i;
          s \<leftarrow> read_at row (r_begin ri);
          if s = question then
            do {
              (i1, ranges1) \<leftarrow> questions_expand_step i ranges;
              questions_expand row i1 ranges1
            }
          else questions_expand row (i + 1) ranges
        }
      else Some ranges)"
  by pat_completeness auto
termination
  by (relation "measure (\<lambda>(row, i, ranges). length ranges - i)")
    (auto simp: questions_expand_step_def erase_def read_at_def Let_def
      split: bind_splits if_splits option.splits)

declare questions_expand.simps [simp del]

definition apply_questions :: "Combination \<Rightarrow> Combination option" where
  "apply_questions c =
     do {
       r0 \<leftarrow> read_at (m_ranges c) 0;
       if r_size r0 = g_nreels then Some c
       else do {
         ranges1 \<leftarrow> questions_connect (m_row c) 1 (m_ranges c);
         ranges2 \<leftarrow> questions_expand (m_row c) 0 ranges1;
         Some (c\<lparr>m_ranges := ranges2\<rparr>)
       }
     }"

function crosses_loop :: "Symbol list \<Rightarrow> nat \<Rightarrow> Range list \<Rightarrow> Range list option" where
  "crosses_loop row i ranges =
     (if i < length ranges then
        do {
          ri \<leftarrow> read_at ranges i;
          s \<leftarrow> read_at row (r_begin ri);
          if s = cross then
            (let ranges1 = (if 0 < i then ranges[i - 1 := (ranges ! (i - 1))\<lparr>r_size := 1\<rparr>]
                            else ranges);
                 ranges2 = (if i < length ranges1 - 1
                            then ranges1[i + 1 := (ranges1 ! (i + 1))\<lparr>r_size := 1\<rparr>]
                            else ranges1)
             in crosses_loop row (i + 1) ranges2)
          else crosses_loop row (i + 1) ranges
        }
      else Some ranges)"
  by pat_completeness auto
termination
  by (relation "measure (\<lambda>(row, i, ranges). length ranges - i)") auto

declare crosses_loop.simps [simp del]

definition apply_crosses :: "Combination \<Rightarrow> Combination option" where
  "apply_crosses c =
     do {
       ranges1 \<leftarrow> crosses_loop (m_row c) 0 (m_ranges c);
       Some (c\<lparr>m_ranges := ranges1\<rparr>)
     }"

function family_loop :: "Symbol list \<Rightarrow> nat \<Rightarrow> Range list \<Rightarrow> Range list option" where
  "family_loop row i ranges =
     (if i < length ranges then
        do {
          prev \<leftarrow> read_at ranges (i - 1);
          cur \<leftarrow> read_at ranges i;
          s \<leftarrow> read_at row (r_begin cur);
          ps \<leftarrow> (if r_begin cur = 0 then None else read_at row (r_begin cur - 1));
          if get_symbol_family s \<noteq> get_symbol_family ps \<or> get_symbol_family s = special
          then family_loop row (i + 1) ranges
          else
            do {
              prev_broken \<leftarrow> (if 1 < i then
                                 do { r \<leftarrow> read_at ranges (i - 2); x \<leftarrow> read_at row (r_begin r);
                                      Some (x = cross) }
                               else Some False);
              cur_broken \<leftarrow> (if i < length ranges - 1 then
                                do { r \<leftarrow> read_at ranges (i + 1); x \<leftarrow> read_at row (r_begin r);
                                     Some (x = cross) }
                              else Some False);
              if prev_broken \<or> cur_broken then family_loop row (i + 1) ranges
              else
                (let prev1 = prev\<lparr>r_size := r_size prev + r_size cur\<rparr>
                 in family_loop row (i + 1) (ranges[i - 1 := prev1, i := prev1]))
            }
        }
      else Some ranges)"
  by pat_completeness auto
termination
  by (relation "measure (\<lambda>(row, i, ranges). length ranges - i)") auto

declare family_loop.simps [simp del]

definition apply_family_symbols :: "Combination \<Rightarrow> Combination option" where
  "apply_family_symbols c =
     do {
       ranges1 \<leftarrow> family_loop (m_row c) 1 (m_ranges c);
       Some (c\<lparr>m_ranges := remdups_adj ranges1\<rparr>)
     }"

text \<open>The search of \<open>get_result\<close> for the first range of the largest size.\<close>

function max_combo_loop :: "Range list \<Rightarrow> nat \<Rightarrow> nat \<Rightarrow> nat \<Rightarrow> nat" where
  "max_combo_loop ranges i max_combo_range_index max_combo_size =
     (if i < length ranges then
        (if max_combo_size < r_size (ranges ! i)
         then max_combo_loop ranges (i + 1) i (r_size (ranges ! i))
         else max_combo_loop ranges (i + 1) max_combo_range_index max_combo_size)
      else max_combo_range_index)"
  by pat_completeness auto
termination
  by (relation "measure (\<lambda>(ranges, i, k, n). length ranges - i)") auto

declare max_combo_loop.simps [simp del]

definition get_result :: "Combination \<Rightarrow> Result option" where
  "get_result c0 =
     do {
       c1 \<leftarrow> apply_questions c0;
       c2 \<leftarrow> apply_crosses c1;
       c \<leftarrow> apply_family_symbols c2;
       r0 \<leftarrow> read_at (m_ranges c) 0;
       combo \<leftarrow> read_at (m_ranges c) (max_combo_loop (m_ranges c) 1 0 (r_size r0));
       if r_size combo < (g_nreels + 1) div 2
       then Some \<lparr>combo_range = combo, points = 0, free_speen = False\<rparr>
       else
         do {
           equal_symbols \<leftarrow> get_max_equal_range (drop (r_begin combo) (m_row c)) (r_size combo);
           dominant \<leftarrow> read_at (m_row c) (r_begin combo + r_begin equal_symbols);
           (dominant1, equal_symbols1) \<leftarrow>
             (if dominant = question \<and> r_size equal_symbols < r_size combo then
                (let cmb_beg = r_begin combo;
                     cmb_end = cmb_beg + r_size combo;
                     es_beg = r_begin equal_symbols + r_begin combo;
                     es_end = es_beg + r_size equal_symbols;
                     in_middle = (cmb_beg < es_beg \<and> es_end < cmb_end)
                 in do {
                   in_middle_dominated \<leftarrow>
                     (if in_middle then
                        do { x \<leftarrow> read_at (m_row c) (es_beg - 1); y \<leftarrow> read_at (m_row c) es_end;
                             Some (x = y) }
                      else Some False);
                   if in_middle_dominated then
                     do { x \<leftarrow> read_at (m_row c) (es_beg - 1); Some (x, equal_symbols) }
                   else
                     do { y \<leftarrow> read_at (m_row c) es_end;
                          Some (y, equal_symbols\<lparr>r_begin :=
                                  r_begin equal_symbols + r_size equal_symbols\<rparr>) }
                 })
              else Some (dominant, equal_symbols));
           let multiplier = big_multiplier ^ r_size equal_symbols1
                            * small_multiplier ^ (r_size combo - r_size equal_symbols1);
           Some \<lparr>combo_range = combo,
                 points = multiplier * get_symbol_base_value dominant1,
                 free_speen = (dominant1 = respin)\<rparr>
         }
     }"


section \<open>Notions for the results\<close>

text \<open>
  A time as \<open>time_to_speed\<close> reports it on finite data: "never" or a finite time that
  is not negative.
\<close>

definition never_or_time :: "flt \<Rightarrow> bool" where
  "never_or_time x = (x = PInf \<or> (\<exists>t. x = Fin t \<and> 0 \<le> t))"




text \<open>
  The selection that \<open>time_to_speed\<close> makes, in a jerked motion, among the roots of
  \<open>quad_equation\<close>.
\<close>

definition pick_roots :: "flt \<times> flt \<Rightarrow> flt \<times> flt" where
  "pick_roots roots =
     (if isnan (fst roots) then (PInf, PInf)
      else if isnan (snd roots) then
        (if fst roots < Fin 0 then (PInf, PInf) else (fst roots, PInf))
      else
        (let min_root = std_min (fst roots) (snd roots);
             max_root = std_max (fst roots) (snd roots) in
         if max_root < Fin 0 then (PInf, PInf)
         else if min_root < Fin 0 then (max_root, PInf)
         else (min_root, max_root)))"


text \<open>The speed of the jerk law at time \<open>t\<close>, from speed \<open>v\<close>, acceleration \<open>a\<close>, jerk \<open>j\<close>.\<close>

definition speed_at :: "real \<Rightarrow> real \<Rightarrow> real \<Rightarrow> real \<Rightarrow> real" where
  "speed_at v a j t = v + a * t + j * t\<^sup>2 / 2"


text \<open>The four hits that \<open>SpeedLimitedMotion::advance\<close> sorts.\<close>

definition corridor_hits :: "'a SpeedLimitedMotion_scheme \<Rightarrow> ExtremumHit list" where
  "corridor_hits m =
     [\<lparr>hit_time = fst (time_to_speed (m_max_speed m) m), hit_value = m_max_speed m\<rparr>,
      \<lparr>hit_time = snd (time_to_speed (m_max_speed m) m), hit_value = m_max_speed m\<rparr>,
      \<lparr>hit_time = fst (time_to_speed (m_min_speed m) m), hit_value = m_min_speed m\<rparr>,
      \<lparr>hit_time = snd (time_to_speed (m_min_speed m) m), hit_value = m_min_speed m\<rparr>]"

text \<open>
  A corridor motion whose jerk is \<open>j\<close>, whose acceleration is the one the jerk law
  has at time \<open>x\<close>, and whose bounds are \<open>lo\<close> and \<open>hi\<close>.
\<close>

definition on_rails ::
  "real \<Rightarrow> real \<Rightarrow> real \<Rightarrow> real \<Rightarrow> real \<Rightarrow> 'a SpeedLimitedMotion_scheme \<Rightarrow> bool" where
  "on_rails a j lo hi x m =
     (MT m = jerked \<and> c_jrk m = Fin j \<and> c_acc m = Fin (a + j * x)
      \<and> m_max_speed m = Fin hi \<and> m_min_speed m = Fin lo)"


section \<open>Example states\<close>

text \<open>A jerked motion whose corridor is the single speed 1, dipping below it.\<close>

definition pinched :: SpeedLimitedMotion where
  "pinched = \<lparr>MT = jerked, c_pos = Fin 0, c_spd = Fin 1, c_acc = Fin (- 1), c_jrk = Fin 1,
     m_max_speed = Fin 1, m_min_speed = Fin 1\<rparr>"

text \<open>Motions of three orders moving at the constant speed 1.\<close>

definition cruising :: "MotionType \<Rightarrow> Motion" where
  "cruising order = \<lparr>MT = order, c_pos = Fin 0, c_spd = Fin 1, c_acc = Fin 0, c_jrk = Fin 0\<rparr>"

text \<open>
  A reel of 16 symbols as its constructor leaves it, after \<open>set_min_speed(1.5)\<close> and
  \<open>set_max_speed(15)\<close>.
\<close>

definition reel_docked :: ReelMotion where
  "reel_docked = \<lparr>MT = jerked, c_pos = Fin 0, c_spd = Fin 0, c_acc = Fin 0, c_jrk = Fin 0,
     m_max_speed = Fin 0, m_min_speed = Fin 0, m_state = rest, m_length = Fin 16,
     m_min_speed_proxy = Fin (3 / 2), m_max_speed_proxy = Fin 15\<rparr>"






text \<open>A row with a lone wildcard between runs of sizes 1 and 2, and its ranges.\<close>

definition row_wild :: "Symbol list" where
  "row_wild = [apple, question, grape, grape, cross]"

definition ranges_wild :: "Range list" where
  "ranges_wild = [\<lparr>r_begin = 0, r_size = 1\<rparr>, \<lparr>r_begin = 1, r_size = 1\<rparr>,
                  \<lparr>r_begin = 2, r_size = 2\<rparr>, \<lparr>r_begin = 4, r_size = 1\<rparr>]"





section \<open>Results about the solver and the polynomial step\<close>

lemmas motion_defs = get_position_def get_speed_def get_acceleration_def get_jerk_def
  set_positon_def set_speed_def set_acceleration_def set_jerk_def mt_ge_def

lemma flt_minus_Fin [simp]: "Fin x - Fin y = Fin (x - y)"
  by (simp add: minus_flt_def)

lemma feq_Fin [simp]: "feq (Fin x) (Fin y) = (x = y)"
  by (simp add: feq_def)

lemma quad_equation_Fin:
  "quad_equation (Fin a) (Fin b) (Fin c) =
     (if a = 0 then
        (if b = 0 then (if c = 0 then (PInf, NaN) else (NaN, NaN))
         else (Fin (- c / b), NaN))
      else if 0 < b * b - 4 * a * c then
        (Fin ((- b + sqrt (b * b - 4 * a * c)) / (2 * a)),
         Fin ((- b - sqrt (b * b - 4 * a * c)) / (2 * a)))
      else if b * b - 4 * a * c = 0 then (Fin (- b / (2 * a)), NaN)
      else (NaN, NaN))"
  by (simp add: quad_equation_def Let_def)



lemma poly_pos_compose:
  "(s + (v + (a / 2 + j * dt1 / 6) * dt1) * dt1) +
     ((v + (a + j * dt1 / 2) * dt1) + ((a + j * dt1) / 2 + j * dt2 / 6) * dt2) * dt2
   = s + (v + (a / 2 + j * (dt1 + dt2) / 6) * (dt1 + dt2)) * (dt1 + dt2)" for s :: real
  by (simp add: field_simps)

lemma poly_spd_compose:
  "(v + (a + j * dt1 / 2) * dt1) + ((a + j * dt1) + j * dt2 / 2) * dt2
   = v + (a + j * (dt1 + dt2) / 2) * (dt1 + dt2)" for v :: real
  by (simp add: field_simps)

lemma poly_acc_compose:
  "(a + j * dt1) + j * dt2 = a + j * (dt1 + dt2)" for a :: real
  by (simp add: field_simps)

lemma poly_pos_horner:
  "s + (v + (a / 2 + j * dt / 6) * dt) * dt = s + v * dt + a * dt\<^sup>2 / 2 + j * dt ^ 3 / 6"
  for s :: real
  by (simp add: field_simps power2_eq_square power3_eq_cube)

lemma poly_spd_horner:
  "v + (a + j * dt / 2) * dt = v + a * dt + j * dt\<^sup>2 / 2" for v :: real
  by (simp add: field_simps power2_eq_square)

text \<open>
  Claim C5. For a motion of any order whose components are finite, \<open>advance(dt1)\<close>
  followed by \<open>advance(dt2)\<close> leaves the same motion (position, speed, acceleration
  and everything else) as one \<open>advance(dt1 + dt2)\<close>, and \<open>advance(dt)\<close> is the
  polynomial step: position \<open>+= speed*dt + acceleration*dt\<^sup>2/2 + jerk*dt\<^sup>3/6\<close>, speed
  \<open>+= acceleration*dt + jerk*dt\<^sup>2/2\<close>, acceleration \<open>+= jerk*dt\<close>, over the values the
  accessors of that order read.
\<close>

theorem Motion_advance_compose:
  assumes "get_position m = Fin s" "get_speed m = Fin v"
    "get_acceleration m = Fin a" "get_jerk m = Fin j"
  shows "Motion_advance (Fin dt2) (Motion_advance (Fin dt1) m) = Motion_advance (Fin (dt1 + dt2)) m
    \<and> get_position (Motion_advance (Fin dt) m) = Fin (s + v * dt + a * dt\<^sup>2 / 2 + j * dt ^ 3 / 6)
    \<and> get_speed (Motion_advance (Fin dt) m) = Fin (v + a * dt + j * dt\<^sup>2 / 2)
    \<and> get_acceleration (Motion_advance (Fin dt) m) = Fin (a + j * dt)"
proof (cases "MT m")
  case stationary
  with assms show ?thesis
    by (simp add: Motion_advance_def motion_defs Let_def)
next
  case uniform
  with assms show ?thesis
    using poly_pos_compose [of s v 0 0 dt1 dt2] poly_pos_horner [of s v 0 0 dt]
    by (simp add: Motion_advance_def motion_defs Let_def)
next
  case accelerated
  with assms show ?thesis
    using poly_pos_compose [of s v a 0 dt1 dt2] poly_pos_horner [of s v a 0 dt]
      poly_spd_compose [of v a 0 dt1 dt2] poly_spd_horner [of v a 0 dt]
    by (simp add: Motion_advance_def motion_defs Let_def)
next
  case jerked
  with assms show ?thesis
    using poly_pos_compose [of s v a j dt1 dt2] poly_pos_horner [of s v a j dt]
      poly_spd_compose [of v a j dt1 dt2] poly_spd_horner [of v a j dt]
      poly_acc_compose [of a j dt1 dt2]
    by (simp add: Motion_advance_def motion_defs Let_def)
qed

theorem Motion_advance_compose_witness:
  "get_position pinched = Fin 0 \<and> get_speed pinched = Fin 1
   \<and> get_acceleration pinched = Fin (- 1) \<and> get_jerk pinched = Fin 1
   \<and> Motion_advance (Fin 2) (Motion_advance (Fin 1) pinched) = Motion_advance (Fin 3) pinched
   \<and> get_position (Motion_advance (Fin 3) pinched) = Fin 3
   \<and> get_speed (Motion_advance (Fin 3) pinched) = Fin (5 / 2)
   \<and> get_acceleration (Motion_advance (Fin 3) pinched) = Fin 2"
proof -
  have g: "get_position pinched = Fin 0" "get_speed pinched = Fin 1"
    "get_acceleration pinched = Fin (- 1)" "get_jerk pinched = Fin 1"
    by (simp_all add: pinched_def motion_defs)
  show ?thesis
    using g Motion_advance_compose [OF g, of 2 1 3] by (simp add: power2_eq_square power3_eq_cube)
qed


section \<open>Results about the exact-landing stop\<close>













section \<open>Results about the time solver\<close>

text \<open>
  In a jerked motion \<open>time_to_speed\<close> selects among the roots of \<open>quad_equation\<close>.
  On finite data each reported time is "never" or a finite time that is not negative;
  for a target that is infinite or NaN both are "never".
\<close>

lemma time_to_speed_jerked:
  assumes "MT m = jerked"
  shows "time_to_speed v1 m = pick_roots (quad_equation (c_jrk m / Fin 2) (c_acc m) (c_spd m - v1))"
  using assms by (simp add: time_to_speed_def pick_roots_def motion_defs Let_def)

lemma pick_roots_shape:
  assumes "r1 \<noteq> NInf" "r2 \<noteq> NInf" "r2 \<noteq> PInf"
  shows "never_or_time (fst (pick_roots (r1, r2))) \<and> never_or_time (snd (pick_roots (r1, r2)))"
  using assms
  by (cases r1; cases r2)
     (simp_all add: pick_roots_def isnan_def std_min_def std_max_def never_or_time_def Let_def)

lemma quad_equation_Fin_shape:
  "fst (quad_equation (Fin a) (Fin b) (Fin c)) \<noteq> NInf
   \<and> snd (quad_equation (Fin a) (Fin b) (Fin c)) \<noteq> NInf
   \<and> snd (quad_equation (Fin a) (Fin b) (Fin c)) \<noteq> PInf"
  by (simp add: quad_equation_Fin)

lemma time_to_speed_jerked_Fin:
  assumes "MT m = jerked" "c_spd m = Fin v" "c_acc m = Fin a" "c_jrk m = Fin j"
  shows "never_or_time (fst (time_to_speed (Fin y) m))
       \<and> never_or_time (snd (time_to_speed (Fin y) m))"
proof -
  obtain r1 r2 where r: "quad_equation (Fin (j / 2)) (Fin a) (Fin (v - y)) = (r1, r2)"
    by (cases "quad_equation (Fin (j / 2)) (Fin a) (Fin (v - y))")
  from quad_equation_Fin_shape [of "j / 2" a "v - y"] r
  have "r1 \<noteq> NInf" "r2 \<noteq> NInf" "r2 \<noteq> PInf" by simp_all
  from pick_roots_shape [OF this] show ?thesis
    using assms r by (simp add: time_to_speed_jerked)
qed



text \<open>
  Outside the constant-speed case \<open>time_to_speed\<close> of a jerked motion is exact: the
  finite times it reports are the non-negative times at which the speed is the target,
  the second one only after a smaller first one.
\<close>

lemma quad_root_complete:
  fixes A :: real
  assumes "A \<noteq> 0" "A * x * x + b * x + c = 0"
  shows "0 \<le> b * b - 4 * A * c
    \<and> (x = (- b + sqrt (b * b - 4 * A * c)) / (2 * A)
       \<or> x = (- b - sqrt (b * b - 4 * A * c)) / (2 * A))"
proof -
  have sq: "(2 * A * x + b)\<^sup>2 = b * b - 4 * A * c"
  proof -
    have "(2 * A * x + b)\<^sup>2 = 4 * A * (A * x * x + b * x + c) + (b * b - 4 * A * c)"
      by (simp add: power2_eq_square algebra_simps)
    then show ?thesis using assms(2) by simp
  qed
  then have d: "0 \<le> b * b - 4 * A * c" by (metis zero_le_power2)
  have "\<bar>2 * A * x + b\<bar> = sqrt (b * b - 4 * A * c)"
    using sq by (metis real_sqrt_abs)
  then have "2 * A * x + b = sqrt (b * b - 4 * A * c) \<or> 2 * A * x + b = - sqrt (b * b - 4 * A * c)"
    by linarith
  then have "x = (- b + sqrt (b * b - 4 * A * c)) / (2 * A)
       \<or> x = (- b - sqrt (b * b - 4 * A * c)) / (2 * A)"
    using assms(1) by (auto simp: field_simps)
  with d show ?thesis by simp
qed

lemma quad_root_sound:
  fixes A :: real
  assumes "A \<noteq> 0" "0 \<le> b * b - 4 * A * c"
    and "x = (- b + sqrt (b * b - 4 * A * c)) / (2 * A)
       \<or> x = (- b - sqrt (b * b - 4 * A * c)) / (2 * A)"
  shows "A * x * x + b * x + c = 0"
proof -
  define s where "s = sqrt (b * b - 4 * A * c)"
  have ss: "s * s = b * b - 4 * A * c" using assms(2) by (simp add: s_def)
  from assms(3) have "2 * A * x + b = s \<or> 2 * A * x + b = - s"
    using assms(1) by (auto simp: s_def field_simps)
  then have "(2 * A * x + b) * (2 * A * x + b) = s * s" by auto
  then have "4 * A * (A * x * x + b * x + c) = 0"
    unfolding ss by (simp add: algebra_simps)
  then show ?thesis using assms(1) by simp
qed


lemma speed_at_root:
  "speed_at v a j t = y \<longleftrightarrow> (j / 2) * t * t + a * t + (v - y) = 0"
  by (simp add: speed_at_def power2_eq_square algebra_simps)

lemma pick_roots_none [simp]: "pick_roots (NaN, r) = (PInf, PInf)"
  by (simp add: pick_roots_def isnan_def)

lemma pick_roots_one [simp]:
  "pick_roots (Fin x, NaN) = (if x < 0 then (PInf, PInf) else (Fin x, PInf))"
  by (simp add: pick_roots_def isnan_def)

lemma pick_roots_marker [simp]: "pick_roots (PInf, NaN) = (PInf, PInf)"
  by (simp add: pick_roots_def isnan_def)

lemma pick_roots_two [simp]:
  "pick_roots (Fin x, Fin y) =
     (if max x y < 0 then (PInf, PInf)
      else if min x y < 0 then (Fin (max x y), PInf)
      else (Fin (min x y), Fin (max x y)))"
  by (simp add: pick_roots_def isnan_def std_min_def std_max_def Let_def min_def max_def)

lemma quad_linear_root:
  fixes A :: real assumes "A = 0" "a \<noteq> 0"
  shows "A * t * t + a * t + c = 0 \<longleftrightarrow> t = - c / a"
  using assms by (auto simp: field_simps)

lemma quad_no_root:
  fixes A :: real assumes A: "A \<noteq> 0" and 1: "a * a - 4 * A * c < 0"
  shows "A * t * t + a * t + c \<noteq> 0"
  using quad_root_complete [OF A, of t a c] 1 by auto

lemma quad_double_root: fixes A :: real assumes A: "A \<noteq> 0" and 2: "a * a - 4 * A * c = 0" shows "A * t * t + a * t + c = 0 \<longleftrightarrow> t = - a / (2 * A)"
proof
  assume "A * t * t + a * t + c = 0"
  from quad_root_complete [OF A this]
  have "t = (- a + sqrt (a * a - 4 * A * c)) / (2 * A) \<or> t = (- a - sqrt (a * a - 4 * A * c)) / (2 * A)"
    by simp
  then show "t = - a / (2 * A)" by (simp only: 2 real_sqrt_zero; simp)
next
  assume t: "t = - a / (2 * A)"
  have d: "0 \<le> a * a - 4 * A * c" by (simp only: 2; simp)
  have "t = (- a + sqrt (a * a - 4 * A * c)) / (2 * A)"
    by (simp only: 2 real_sqrt_zero t; simp)
  then show "A * t * t + a * t + c = 0"
    using quad_root_sound [OF A d] by blast
qed

lemma quad_two_roots:
  fixes A :: real assumes A: "A \<noteq> 0" and 3: "0 < a * a - 4 * A * c"
  shows "A * t * t + a * t + c = 0 \<longleftrightarrow>
    t = (- a + sqrt (a * a - 4 * A * c)) / (2 * A) \<or> t = (- a - sqrt (a * a - 4 * A * c)) / (2 * A)"
  using quad_root_complete [OF A, of t a c] quad_root_sound [OF A, of a c t] 3
  by auto

lemma quad_equation_double:
  assumes "A \<noteq> 0" "a * a - 4 * A * c = 0"
  shows "quad_equation (Fin A) (Fin a) (Fin c) = (Fin (- a / (2 * A)), NaN)"
  by (subst quad_equation_Fin) (simp only: assms less_irrefl if_False if_True refl)

lemma time_to_speed_jerked_roots:
  assumes m: "MT m = jerked" "c_spd m = Fin v" "c_acc m = Fin a" "c_jrk m = Fin j"
    and nc: "a \<noteq> 0 \<or> j \<noteq> 0"
  shows "((fst (time_to_speed (Fin y) m) = Fin t \<or> snd (time_to_speed (Fin y) m) = Fin t)
          \<longleftrightarrow> (0 \<le> t \<and> speed_at v a j t = y))
       \<and> (\<forall>x2. snd (time_to_speed (Fin y) m) = Fin x2
            \<longrightarrow> (\<exists>x1. fst (time_to_speed (Fin y) m) = Fin x1 \<and> x1 < x2))"
proof -
  define A where "A = j / 2"
  define c where "c = v - y"
  have tts: "time_to_speed (Fin y) m = pick_roots (quad_equation (Fin A) (Fin a) (Fin c))"
    using m by (simp add: time_to_speed_jerked A_def c_def)
  have root: "speed_at v a j t = y \<longleftrightarrow> A * t * t + a * t + c = 0" for t
    by (simp add: speed_at_root A_def c_def)
  show ?thesis
  proof (cases "A = 0")
    case True
    with nc have a: "a \<noteq> 0" by (simp add: A_def)
    have q: "quad_equation (Fin A) (Fin a) (Fin c) = (Fin (- c / a), NaN)"
      using True a by (simp add: quad_equation_Fin)
    show ?thesis unfolding tts q root quad_linear_root [OF True a] by auto
  next
    case A: False
    consider "a * a - 4 * A * c < 0" | "a * a - 4 * A * c = 0" | "0 < a * a - 4 * A * c"
      by linarith
    then show ?thesis
    proof cases
      case 1
      have q: "quad_equation (Fin A) (Fin a) (Fin c) = (NaN, NaN)"
        using A 1 by (simp add: quad_equation_Fin)
      show ?thesis unfolding tts q root using quad_no_root [OF A 1] by simp
    next
      case 2
      show ?thesis
        unfolding tts quad_equation_double [OF A 2] root quad_double_root [OF A 2] by auto
    next
      case 3
      define r1 where "r1 = (- a + sqrt (a * a - 4 * A * c)) / (2 * A)"
      define r2 where "r2 = (- a - sqrt (a * a - 4 * A * c)) / (2 * A)"
      have q: "quad_equation (Fin A) (Fin a) (Fin c) = (Fin r1, Fin r2)"
        using A 3 by (simp add: quad_equation_Fin r1_def r2_def)
      have ne: "r1 \<noteq> r2" using A 3 by (simp add: r1_def r2_def)
      have "A * t * t + a * t + c = 0 \<longleftrightarrow> t = r1 \<or> t = r2"
        unfolding r1_def r2_def by (rule quad_two_roots [OF A 3])
      then have iff: "A * t * t + a * t + c = 0 \<longleftrightarrow> t = min r1 r2 \<or> t = max r1 r2"
        by (auto simp: min_def max_def)
      have lt: "min r1 r2 < max r1 r2" using ne by (simp add: min_def max_def)
      show ?thesis
      proof (cases "max r1 r2 < 0")
        case True
        with lt have "min r1 r2 < 0" by linarith
        with True show ?thesis unfolding tts q root iff by auto
      next
        case hi: False
        show ?thesis
        proof (cases "min r1 r2 < 0")
          case True
          with hi show ?thesis unfolding tts q root iff by auto
        next
          case False
          with hi lt show ?thesis unfolding tts q root iff by auto
        qed
      qed
    qed
  qed
qed

text \<open>
  So the first component is the smallest non-negative time at which the speed is the
  target, or "never" when there is none; the lower orders answer in closed form.
\<close>

lemma time_to_speed_jerked_least:
  assumes m: "MT m = jerked" "c_spd m = Fin v" "c_acc m = Fin a" "c_jrk m = Fin j"
    and nc: "a \<noteq> 0 \<or> j \<noteq> 0"
  shows "(fst (time_to_speed (Fin y) m) = PInf \<and> (\<forall>t. 0 \<le> t \<longrightarrow> speed_at v a j t \<noteq> y))
       \<or> (\<exists>t1. fst (time_to_speed (Fin y) m) = Fin t1 \<and> 0 \<le> t1 \<and> speed_at v a j t1 = y
              \<and> (\<forall>t. 0 \<le> t \<and> speed_at v a j t = y \<longrightarrow> t1 \<le> t))"
proof -
  note roots = time_to_speed_jerked_roots [OF m nc, of y]
  have shape: "never_or_time (fst (time_to_speed (Fin y) m))"
    using time_to_speed_jerked_Fin [OF m] by simp
  have first: "\<exists>t1. fst (time_to_speed (Fin y) m) = Fin t1 \<and> t1 \<le> t"
    if "0 \<le> t" "speed_at v a j t = y" for t
  proof -
    from roots [of t, THEN conjunct1] that
    have "fst (time_to_speed (Fin y) m) = Fin t \<or> snd (time_to_speed (Fin y) m) = Fin t"
      by simp
    then show ?thesis
    proof
      assume "fst (time_to_speed (Fin y) m) = Fin t"
      then show ?thesis by simp
    next
      assume "snd (time_to_speed (Fin y) m) = Fin t"
      with roots [of t, THEN conjunct2] show ?thesis by force
    qed
  qed
  from shape show ?thesis
  proof (unfold never_or_time_def, elim disjE exE conjE)
    assume inf: "fst (time_to_speed (Fin y) m) = PInf"
    with first have "\<forall>t. 0 \<le> t \<longrightarrow> speed_at v a j t \<noteq> y" by force
    with inf show ?thesis by simp
  next
    fix t1 assume t1: "fst (time_to_speed (Fin y) m) = Fin t1" "0 \<le> t1"
    from roots [of t1, THEN conjunct1] t1 have "speed_at v a j t1 = y" by simp
    moreover have "\<forall>t. 0 \<le> t \<and> speed_at v a j t = y \<longrightarrow> t1 \<le> t"
      using first t1(1) by force
    ultimately show ?thesis using t1 by simp
  qed
qed

lemma time_to_speed_lower_orders:
  "MT m = stationary \<Longrightarrow>
     time_to_speed (Fin y) m = (if y = 0 then Fin 0 else PInf, PInf)"
  "MT m = uniform \<Longrightarrow> c_spd m = Fin v \<Longrightarrow>
     time_to_speed (Fin y) m = (if y = v then Fin 0 else PInf, PInf)"
  "MT m = accelerated \<Longrightarrow> c_spd m = Fin v \<Longrightarrow> c_acc m = Fin a \<Longrightarrow> a \<noteq> 0 \<Longrightarrow>
     time_to_speed (Fin y) m = (if (y - v) / a < 0 then PInf else Fin ((y - v) / a), PInf)"
  by (simp_all add: time_to_speed_def motion_defs Let_def)

text \<open>
  Claim C3, at a motion of constant speed. The jerked motion moving at speed 1 with no
  acceleration and no jerk has speed 1 at time 0, so the smallest time at which its
  speed is 1 is 0; \<open>time_to_speed(1)\<close> answers \<open>+infinity\<close> (the solver's marker for
  "every value is a root" passes through as "never"). The accelerated motion in the
  same state answers NaN (\<open>0/0\<close>), and the uniform one answers 0.
\<close>

theorem time_to_speed_constant_speed:
  "get_speed (Motion_advance (Fin 0) (cruising jerked)) = Fin 1
   \<and> time_to_speed (Fin 1) (cruising jerked) = (PInf, PInf)
   \<and> time_to_speed (Fin 1) (cruising accelerated) = (NaN, PInf)
   \<and> time_to_speed (Fin 1) (cruising uniform) = (Fin 0, PInf)"
  by (simp add: cruising_def time_to_speed_def quad_equation_def motion_defs Motion_advance_def
      isnan_def Let_def)


section \<open>Results about the speed corridor\<close>

text \<open>
  Claim C2, at a corridor of one speed. The motion \<open>pinched\<close> starts inside its corridor
  \<open>[1, 1]\<close>; \<open>SpeedLimitedMotion::advance(1)\<close> leaves it at speed \<open>1/2\<close>, below
  \<open>min_speed\<close>. Every hit is compared with \<open>m_max_speed\<close> to tell the bounds apart, so
  with equal bounds the hits of \<open>min_speed\<close> count as a second crossing of \<open>max_speed\<close>
  and the step between them follows the jerk law unclamped.
\<close>

theorem SpeedLimitedMotion_advance_leaves_corridor:
  "m_min_speed pinched \<le> get_speed pinched \<and> get_speed pinched \<le> m_max_speed pinched
   \<and> m_min_speed pinched \<le> m_max_speed pinched
   \<and> get_speed (SpeedLimitedMotion_advance (Fin 1) pinched) = Fin (1 / 2)
   \<and> m_min_speed (SpeedLimitedMotion_advance (Fin 1) pinched) = Fin 1
   \<and> \<not> m_min_speed (SpeedLimitedMotion_advance (Fin 1) pinched)
         \<le> get_speed (SpeedLimitedMotion_advance (Fin 1) pinched)"
  by (simp add: pinched_def SpeedLimitedMotion_advance_def time_to_speed_def quad_equation_def
      motion_defs Let_def isnan_def std_min_def std_max_def isinf_def uniform_advance_def
      Motion_advance_def advance_loop.simps advance_step_def)

lemma set_insort_hit: "set (insort_hit h xs) = insert h (set xs)"
  by (induction xs) auto

lemma set_sort_hits: "set (sort_hits xs) = set xs"
  by (induction xs) (simp_all add: set_insort_hit)

text \<open>
  With \<open>min_speed < max_speed\<close>, both finite, the step keeps a jerked motion in its
  corridor: the sorted hits are exactly the non-negative times at which the jerk law
  meets a bound, between two of them the law cannot leave the corridor (intermediate
  values), and the loop keeps the speed on the law or on a bound.
\<close>

lemma speed_at_continuous: "continuous_on S (speed_at v a j)"
  unfolding speed_at_def [abs_def] by (intro continuous_intros) simp

lemma crossing_up:
  assumes "p \<le> x" "speed_at v a j p \<le> y" "y \<le> speed_at v a j x"
  shows "\<exists>t. p \<le> t \<and> t \<le> x \<and> speed_at v a j t = y"
  using IVT' [of "speed_at v a j" p y x] assms speed_at_continuous by blast

lemma crossing_down:
  assumes "p \<le> x" "speed_at v a j x \<le> y" "y \<le> speed_at v a j p"
  shows "\<exists>t. p \<le> t \<and> t \<le> x \<and> speed_at v a j t = y"
  using IVT2' [of "speed_at v a j" x y p] assms speed_at_continuous by blast

lemma between_equal_values:
  assumes "speed_at v a j p = b" "speed_at v a j q = b" "p < q"
  shows "speed_at v a j x - b = (j / 2) * (x - p) * (x - q)"
proof -
  have "speed_at v a j q - speed_at v a j p = (q - p) * (a + (j / 2) * (p + q))"
    by (simp add: speed_at_def power2_eq_square field_simps)
  with assms have "(q - p) * (a + (j / 2) * (p + q)) = 0" by simp
  with assms(3) have a: "a = - ((j / 2) * (p + q))" by simp
  have "speed_at v a j x - speed_at v a j p = (x - p) * (a + (j / 2) * (x + p))"
    by (simp add: speed_at_def power2_eq_square field_simps)
  also have "\<dots> = (j / 2) * (x - p) * (x - q)"
    unfolding a by (simp add: field_simps)
  finally show ?thesis using assms(1) by simp
qed

lemma stays_in_corridor:
  assumes lh: "lo < hi" and fp: "lo \<le> speed_at v a j p" "speed_at v a j p \<le> hi"
    and px: "p \<le> x" "x \<le> q"
    and fq: "speed_at v a j q = b" "b = hi \<or> b = lo"
    and noroot: "\<And>t. p < t \<Longrightarrow> t < q \<Longrightarrow> speed_at v a j t \<noteq> hi \<and> speed_at v a j t \<noteq> lo"
    and top: "speed_at v a j p = hi \<Longrightarrow> b = hi \<Longrightarrow> 0 < j"
    and bot: "speed_at v a j p = lo \<Longrightarrow> b = lo \<Longrightarrow> j < 0"
  shows "lo \<le> speed_at v a j x \<and> speed_at v a j x \<le> hi"
proof -
  let ?f = "speed_at v a j"
  have fqr: "lo \<le> ?f q" "?f q \<le> hi" using fq lh by auto
  have upper: "?f x \<le> hi"
  proof (rule ccontr)
    assume "\<not> ?f x \<le> hi"
    then have gt: "hi < ?f x" by simp
    with fp fqr px have x: "p < x" "x < q" by (auto simp: less_le)
    show False
    proof (cases "?f p < hi")
      case True
      from crossing_up [OF less_imp_le [OF x(1)], of v a j hi] True gt
      obtain t where t: "p \<le> t" "t \<le> x" "?f t = hi" by auto
      with True gt have "p < t" "t < x" by (auto simp: less_le)
      with noroot [of t] t(3) x(2) show False by simp
    next
      case False
      with fp have e: "?f p = hi" by simp
      from fq(2) show False
      proof
        assume b: "b = hi"
        from top [OF e b] have j: "0 < j" .
        from between_equal_values [OF e _ _, of q x] fq(1) b x
        have "?f x - hi = (j / 2) * (x - p) * (x - q)" by simp
        moreover have "(j / 2) * (x - p) * (x - q) < 0"
          using j x by (simp add: mult_less_0_iff zero_less_mult_iff)
        ultimately show False using gt by simp
      next
        assume b: "b = lo"
        from crossing_down [OF less_imp_le [OF x(2)], of v a j hi] gt fq(1) b lh
        obtain t where t: "x \<le> t" "t \<le> q" "?f t = hi" by auto
        with gt fq(1) b lh have "x < t" "t < q" by (auto simp: less_le)
        with noroot [of t] t(3) x(1) show False by simp
      qed
    qed
  qed
  have lower: "lo \<le> ?f x"
  proof (rule ccontr)
    assume "\<not> lo \<le> ?f x"
    then have lt: "?f x < lo" by simp
    with fp fqr px have x: "p < x" "x < q" by (auto simp: less_le)
    show False
    proof (cases "lo < ?f p")
      case True
      from crossing_down [OF less_imp_le [OF x(1)], of v a j lo] True lt
      obtain t where t: "p \<le> t" "t \<le> x" "?f t = lo" by auto
      with True lt have "p < t" "t < x" by (auto simp: less_le)
      with noroot [of t] t(3) x(2) show False by simp
    next
      case False
      with fp have e: "?f p = lo" by simp
      from fq(2) show False
      proof
        assume b: "b = lo"
        from bot [OF e b] have j: "j < 0" .
        from between_equal_values [OF e _ _, of q x] fq(1) b x
        have "?f x - lo = (j / 2) * (x - p) * (x - q)" by simp
        moreover have "0 < (j / 2) * (x - p) * (x - q)"
          using j x by (simp add: mult_less_0_iff zero_less_mult_iff)
        ultimately show False using lt by simp
      next
        assume b: "b = hi"
        from crossing_up [OF less_imp_le [OF x(2)], of v a j lo] lt fq(1) b lh
        obtain t where t: "x \<le> t" "t \<le> q" "?f t = lo" by auto
        with lt fq(1) b lh have "x < t" "t < q" by (auto simp: less_le)
        with noroot [of t] t(3) x(1) show False by simp
      qed
    qed
  qed
  from lower upper show ?thesis by simp
qed

lemma never_or_time_less:
  assumes "never_or_time x" "never_or_time y" "never_or_time z"
  shows "x < y \<Longrightarrow> \<not> y < x" "\<not> y < x \<Longrightarrow> \<not> z < y \<Longrightarrow> \<not> z < x"
  using assms by (auto simp: never_or_time_def)

lemma insort_hit_sorted:
  assumes "never_or_time (hit_time h)" "\<forall>x \<in> set xs. never_or_time (hit_time x)"
    and "sorted_wrt (\<lambda>x y. \<not> hit_time y < hit_time x) xs"
  shows "sorted_wrt (\<lambda>x y. \<not> hit_time y < hit_time x) (insort_hit h xs)"
  using assms
proof (induction xs)
  case Nil
  then show ?case by simp
next
  case (Cons x xs)
  show ?case
  proof (cases "hit_time x < hit_time h")
    case True
    have "\<not> hit_time h < hit_time x"
      using never_or_time_less(1) [OF _ _ Cons.prems(1) True] Cons.prems by simp
    with True Cons show ?thesis by (auto simp: set_insort_hit)
  next
    case False
    have "\<not> hit_time z < hit_time h" if "z \<in> set xs" for z
    proof -
      have "\<not> hit_time z < hit_time x" using Cons.prems(3) that by simp
      with False show ?thesis
        using never_or_time_less(2) [of "hit_time h" "hit_time x" "hit_time z"] Cons.prems that
        by simp
    qed
    with False Cons.prems show ?thesis by simp
  qed
qed

lemma sort_hits_sorted:
  assumes "\<forall>x \<in> set xs. never_or_time (hit_time x)"
  shows "sorted_wrt (\<lambda>x y. \<not> hit_time y < hit_time x) (sort_hits xs)"
  using assms by (induction xs) (simp_all add: insort_hit_sorted set_sort_hits)

lemma SpeedLimitedMotion_advance_hits:
  "SpeedLimitedMotion_advance dt m =
     (let r = advance_loop (sort_hits (corridor_hits m)) dt 0 (Fin 0) m
      in if fst r < dt then uniform_advance (dt - fst r) (snd r) else snd r)"
  by (simp add: SpeedLimitedMotion_advance_def corridor_hits_def split_beta Let_def)

lemma corridor_hits_sound:
  assumes m: "MT m = jerked" "c_spd m = Fin v" "c_acc m = Fin a" "c_jrk m = Fin j"
    and b: "m_max_speed m = Fin hi" "m_min_speed m = Fin lo"
    and h: "h \<in> set (corridor_hits m)"
  shows "never_or_time (hit_time h) \<and> (hit_value h = Fin hi \<or> hit_value h = Fin lo)"
  using h b time_to_speed_jerked_Fin [OF m, of hi] time_to_speed_jerked_Fin [OF m, of lo]
  by (auto simp: corridor_hits_def)

lemma corridor_hits_root:
  assumes m: "MT m = jerked" "c_spd m = Fin v" "c_acc m = Fin a" "c_jrk m = Fin j"
    and nc: "a \<noteq> 0 \<or> j \<noteq> 0"
    and b: "m_max_speed m = Fin hi" "m_min_speed m = Fin lo"
    and h: "h \<in> set (corridor_hits m)" "hit_time h = Fin t" "hit_value h = Fin y"
  shows "0 \<le> t \<and> speed_at v a j t = y"
proof -
  note r = time_to_speed_jerked_roots [OF m nc, THEN conjunct1]
  from h b have "(fst (time_to_speed (Fin y) m) = Fin t \<or> snd (time_to_speed (Fin y) m) = Fin t)"
    by (auto simp: corridor_hits_def)
  with r [of y t] show ?thesis by simp
qed

lemma corridor_hits_complete:
  assumes m: "MT m = jerked" "c_spd m = Fin v" "c_acc m = Fin a" "c_jrk m = Fin j"
    and nc: "a \<noteq> 0 \<or> j \<noteq> 0"
    and b: "m_max_speed m = Fin hi" "m_min_speed m = Fin lo"
    and t: "0 \<le> t" "speed_at v a j t = hi \<or> speed_at v a j t = lo"
  shows "\<exists>h \<in> set (corridor_hits m). hit_time h = Fin t"
proof -
  note r = time_to_speed_jerked_roots [OF m nc, THEN conjunct1]
  from t(2) show ?thesis
  proof
    assume "speed_at v a j t = hi"
    with r [of hi t] t(1) b show ?thesis by (auto simp: corridor_hits_def)
  next
    assume "speed_at v a j t = lo"
    with r [of lo t] t(1) b show ?thesis by (auto simp: corridor_hits_def)
  qed
qed

lemma speed_at_shift:
  "speed_at v a j p + (a + j * p + j * (x - p) / 2) * (x - p) = speed_at v a j x"
  by (simp add: speed_at_def power2_eq_square field_simps)

lemma uniform_advance_rails:
  assumes "on_rails a j lo hi p m"
  shows "on_rails a j lo hi x (uniform_advance (Fin (x - p)) m)
       \<and> c_spd (uniform_advance (Fin (x - p)) m) = c_spd m"
  using assms
  by (simp add: on_rails_def uniform_advance_def motion_defs algebra_simps)

lemma Motion_advance_rails:
  assumes "on_rails a j lo hi p m" "c_spd m = Fin (speed_at v a j p)"
  shows "on_rails a j lo hi x (Motion_advance (Fin (x - p)) m)
       \<and> c_spd (Motion_advance (Fin (x - p)) m) = Fin (speed_at v a j x)"
  using assms speed_at_shift [of v a j p x]
  by (simp add: on_rails_def Motion_advance_def motion_defs Let_def algebra_simps)

lemma set_speed_rails:
  assumes "on_rails a j lo hi x m"
  shows "on_rails a j lo hi x (set_speed s m) \<and> c_spd (set_speed s m) = s"
  using assms by (simp add: on_rails_def motion_defs)

lemma advance_step_cases:
  assumes r: "on_rails a j lo hi p m" and s: "c_spd m = Fin fp"
    and h: "hit_time (ex ! i) = Fin ti" "hit_value (ex ! i) = Fin b"
  shows "advance_step ex (Fin d) i (Fin p) m =
     (if (if b = hi then hi \<le> fp else fp \<le> lo)
         \<and> \<not> ((0 < i \<and> feq (hit_value (ex ! (i - 1))) (Fin b))
                \<and> (if b = hi then 0 < j else j < 0))
      then uniform_advance (Fin ((if d \<le> ti then d else ti) - p)) m
      else if d \<le> ti then Motion_advance (Fin (d - p)) m
      else set_speed (Fin b) (Motion_advance (Fin (ti - p)) m))"
proof -
  have g: "get_speed m = Fin fp" "get_jerk m = Fin j" "m_max_speed m = Fin hi"
    "m_min_speed m = Fin lo"
    using r s by (simp_all add: on_rails_def motion_defs)
  show ?thesis
    unfolding advance_step_def Let_def h g
    by (cases "d \<le> ti"; cases "b = hi"; auto)
qed

lemma advance_loop_corridor:
  assumes lh: "lo < hi"
    and sorted: "sorted_wrt (\<lambda>x y. \<not> hit_time y < hit_time x) ex"
    and sound: "\<And>h. h \<in> set ex \<Longrightarrow>
        never_or_time (hit_time h) \<and> (hit_value h = Fin hi \<or> hit_value h = Fin lo)"
    and root: "\<And>h t y. h \<in> set ex \<Longrightarrow> hit_time h = Fin t \<Longrightarrow> hit_value h = Fin y \<Longrightarrow>
        0 \<le> t \<and> speed_at v a j t = y"
    and complete: "\<And>t. 0 \<le> t \<Longrightarrow> speed_at v a j t = hi \<or> speed_at v a j t = lo \<Longrightarrow>
        \<exists>h \<in> set ex. hit_time h = Fin t"
    and dt: "dt = Fin d" and pt: "pt = Fin p"
    and rails: "on_rails a j lo hi p m" and spd: "c_spd m = Fin (speed_at v a j p)"
    and inb: "lo \<le> speed_at v a j p" "speed_at v a j p \<le> hi"
    and p: "0 \<le> p" "p \<le> d"
    and prev: "(i = 0 \<and> p = 0) \<or> (0 < i \<and> i \<le> length ex \<and> hit_time (ex ! (i - 1)) = Fin p)"
  shows "\<exists>u. c_spd (snd (advance_loop ex dt i pt m)) = Fin u \<and> lo \<le> u \<and> u \<le> hi
           \<and> MT (snd (advance_loop ex dt i pt m)) = jerked"
  using assms
proof (induction ex dt i pt m arbitrary: p rule: advance_loop.induct)
  case (1 ex dt i pt m)
  let ?f = "speed_at v a j"
  note lh = "1.prems"(1) and sorted = "1.prems"(2) and sound = "1.prems"(3)
    and root = "1.prems"(4) and complete = "1.prems"(5) and dt = "1.prems"(6)
    and pt = "1.prems"(7) and rails = "1.prems"(8) and spd = "1.prems"(9)
    and inb = "1.prems"(10,11) and p = "1.prems"(12,13) and prev = "1.prems"(14)
  have jm: "MT m = jerked" using rails by (simp add: on_rails_def)
  show ?case
  proof (cases "i < length ex \<and> \<not> isinf (hit_time (ex ! i))")
    case False
    then have "advance_loop ex dt i pt m = (pt, m)"
      by (subst advance_loop.simps) (simp only: if_False)
    with spd inb jm show ?thesis by simp
  next
    case True
    then have mem: "ex ! i \<in> set ex" by simp
    from sound [OF mem] True obtain ti where ti: "hit_time (ex ! i) = Fin ti"
      by (auto simp: never_or_time_def isinf_def)
    from sound [OF mem] obtain b where b: "hit_value (ex ! i) = Fin b" "b = hi \<or> b = lo"
      by auto
    from root [OF mem ti b(1)] have ti0: "0 \<le> ti" and fti: "?f ti = b" by simp_all
    have sorted_nth: "\<not> hit_time (ex ! l) < hit_time (ex ! k)" if "k < l" "l < length ex" for k l
      using sorted that by (simp add: sorted_wrt_iff_nth_less)
    have pti: "p \<le> ti"
    proof (cases "i = 0")
      case True
      with prev ti0 show ?thesis by simp
    next
      case False
      with prev have "hit_time (ex ! (i - 1)) = Fin p" by simp
      with sorted_nth [of "i - 1" i] False True ti show ?thesis by simp
    qed
    have noroot: "?f t \<noteq> hi \<and> ?f t \<noteq> lo" if t: "p < t" "t < ti" for t
    proof (rule ccontr)
      assume "\<not> (?f t \<noteq> hi \<and> ?f t \<noteq> lo)"
      then have "?f t = hi \<or> ?f t = lo" by blast
      moreover have "0 \<le> t" using p(1) t(1) by simp
      ultimately obtain h where h: "h \<in> set ex" "hit_time h = Fin t"
        using complete by blast
      then obtain k where k: "k < length ex" "ex ! k = h" by (auto simp: in_set_conv_nth)
      consider "k < i" | "k = i" | "i < k" by linarith
      then show False
      proof cases
        case 1
        then have i0: "0 < i" by simp
        with prev have pp: "hit_time (ex ! (i - 1)) = Fin p" by simp
        show False
        proof (cases "k = i - 1")
          case True
          with pp k h t show False by simp
        next
          case False
          with 1 have ki: "k < i - 1" by simp
          have "i - 1 < length ex" using True by arith
          from sorted_nth [OF ki this] have "\<not> hit_time (ex ! (i - 1)) < hit_time (ex ! k)" .
          with pp k h t show False by simp
        qed
      next
        case 2
        with k h ti t show False by simp
      next
        case 3
        from sorted_nth [OF 3 k(1)] k h ti t show False by simp
      qed
    qed
    define uniform where "uniform \<longleftrightarrow>
      (if b = hi then hi \<le> ?f p else ?f p \<le> lo)
         \<and> \<not> ((0 < i \<and> feq (hit_value (ex ! (i - 1))) (Fin b))
                \<and> (if b = hi then 0 < j else j < 0))"
    have step: "advance_step ex (Fin d) i (Fin p) m =
      (if uniform then uniform_advance (Fin ((if d \<le> ti then d else ti) - p)) m
       else if d \<le> ti then Motion_advance (Fin (d - p)) m
       else set_speed (Fin b) (Motion_advance (Fin (ti - p)) m))"
      unfolding uniform_def by (rule advance_step_cases [OF rails spd ti b(1)])
    have top: "0 < j" if "\<not> uniform" "?f p = hi" "b = hi"
      using that by (simp add: uniform_def split: if_splits)
    have bot: "j < 0" if "\<not> uniform" "?f p = lo" "b = lo"
      using that lh by (simp add: uniform_def split: if_splits)
    have held: "?f p = b" if "uniform"
      using that inb b(2) lh by (auto simp: uniform_def split: if_splits)
    show ?thesis
    proof (cases "d \<le> ti")
      case up: True
      have loop: "advance_loop ex dt i pt m = (dt, advance_step ex (Fin d) i (Fin p) m)"
        using True up ti by (subst advance_loop.simps) (simp add: dt pt)
      show ?thesis
      proof (cases uniform)
        case True
        with step up have "advance_step ex (Fin d) i (Fin p) m = uniform_advance (Fin (d - p)) m"
          by simp
        with uniform_advance_rails [OF rails, of d] spd inb loop show ?thesis
          by (simp add: on_rails_def)
      next
        case False
        with step up have "advance_step ex (Fin d) i (Fin p) m = Motion_advance (Fin (d - p)) m"
          by simp
        moreover have "lo \<le> ?f d \<and> ?f d \<le> hi"
          by (rule stays_in_corridor [OF lh inb p(2) up fti b(2) noroot top [OF False] bot [OF False]])
        ultimately show ?thesis
          using Motion_advance_rails [OF rails spd, of d] loop by (simp add: on_rails_def)
      qed
    next
      case down: False
      define m' where "m' = advance_step ex dt i pt m"
      have m'_eq: "m' = advance_step ex (Fin d) i (Fin p) m" by (simp add: m'_def dt pt)
      have loop: "advance_loop ex dt i pt m = advance_loop ex dt (i + 1) (hit_time (ex ! i)) m'"
        using True down ti by (subst advance_loop.simps) (simp add: dt pt m'_def)
      have m': "on_rails a j lo hi ti m' \<and> c_spd m' = Fin (?f ti)"
      proof (cases uniform)
        case True
        with step down have "m' = uniform_advance (Fin (ti - p)) m" by (simp add: m'_eq)
        with uniform_advance_rails [OF rails, of ti] spd held [OF True] fti show ?thesis by simp
      next
        case False
        with step down have "m' = set_speed (Fin b) (Motion_advance (Fin (ti - p)) m)"
          by (simp add: m'_eq)
        with set_speed_rails [OF Motion_advance_rails [OF rails spd, of ti, THEN conjunct1], of "Fin b"]
          fti show ?thesis by simp
      qed
      have inb': "lo \<le> ?f ti" "?f ti \<le> hi" using fti b(2) lh by auto
      have guard: "\<not> dt \<le> hit_time (ex ! i)" using down ti dt by simp
      have prev': "(i + 1 = 0 \<and> ti = 0) \<or>
          (0 < i + 1 \<and> i + 1 \<le> length ex \<and> hit_time (ex ! (i + 1 - 1)) = Fin ti)"
        using True ti by simp
      have tid: "ti \<le> d" using down by simp
      from "1.IH" [OF True guard lh sorted sound root complete dt ti
          m' [THEN conjunct1, unfolded m'_def] m' [THEN conjunct2, unfolded m'_def]
          inb' ti0 tid prev']
      show ?thesis unfolding loop m'_def by simp
    qed
  qed
qed

lemma advance_loop_never:
  assumes "\<forall>h \<in> set ex. hit_time h = PInf"
  shows "advance_loop ex dt i pt m = (pt, m)"
proof -
  have "\<not> (i < length ex \<and> \<not> isinf (hit_time (ex ! i)))"
    using assms by (auto simp: isinf_def)
  then show ?thesis by (subst advance_loop.simps) (simp only: if_False)
qed

lemma time_to_speed_constant:
  assumes "MT m = jerked" "c_spd m = Fin v" "c_acc m = Fin 0" "c_jrk m = Fin 0"
  shows "time_to_speed (Fin y) m = (PInf, PInf)"
  using assms by (simp add: time_to_speed_jerked quad_equation_Fin)

lemma uniform_advance_speed:
  "MT m = jerked \<Longrightarrow> get_speed (uniform_advance t m) = get_speed m"
  by (simp add: uniform_advance_def motion_defs)

lemma SpeedLimitedMotion_advance_in_corridor:
  assumes m: "MT m = jerked" "c_spd m = Fin v" "c_acc m = Fin a" "c_jrk m = Fin j"
    and b: "m_max_speed m = Fin hi" "m_min_speed m = Fin lo"
    and lh: "lo < hi" and v: "lo \<le> v" "v \<le> hi" and d: "0 \<le> d"
  shows "\<exists>u. get_speed (SpeedLimitedMotion_advance (Fin d) m) = Fin u \<and> lo \<le> u \<and> u \<le> hi"
proof -
  define ex where "ex = sort_hits (corridor_hits m)"
  define r where "r = advance_loop ex (Fin d) 0 (Fin 0) m"
  have adv: "SpeedLimitedMotion_advance (Fin d) m =
      (if fst r < Fin d then uniform_advance (Fin d - fst r) (snd r) else snd r)"
    by (simp add: SpeedLimitedMotion_advance_hits ex_def r_def Let_def)
  have loop: "\<exists>u. c_spd (snd r) = Fin u \<and> lo \<le> u \<and> u \<le> hi \<and> MT (snd r) = jerked"
  proof (cases "a \<noteq> 0 \<or> j \<noteq> 0")
    case True
    have set_ex: "set ex = set (corridor_hits m)" by (simp add: ex_def set_sort_hits)
    have sound: "never_or_time (hit_time h) \<and> (hit_value h = Fin hi \<or> hit_value h = Fin lo)"
      if "h \<in> set ex" for h
      using corridor_hits_sound [OF m b] that set_ex by simp
    have sorted: "sorted_wrt (\<lambda>x y. \<not> hit_time y < hit_time x) ex"
      unfolding ex_def using corridor_hits_sound [OF m b] by (intro sort_hits_sorted) simp
    have root: "0 \<le> t \<and> speed_at v a j t = y"
      if "h \<in> set ex" "hit_time h = Fin t" "hit_value h = Fin y" for h t y
      using corridor_hits_root [OF m True b] that set_ex by simp
    have complete: "\<exists>h \<in> set ex. hit_time h = Fin t"
      if "0 \<le> t" "speed_at v a j t = hi \<or> speed_at v a j t = lo" for t
      using corridor_hits_complete [OF m True b that] set_ex by simp
    have rails: "on_rails a j lo hi 0 m" using m b by (simp add: on_rails_def)
    have f0: "speed_at v a j 0 = v" by (simp add: speed_at_def)
    have spd: "c_spd m = Fin (speed_at v a j 0)" using m f0 by simp
    have inb: "lo \<le> speed_at v a j 0" "speed_at v a j 0 \<le> hi" using v f0 by simp_all
    have z: "(0::real) \<le> 0" by simp
    have prev: "((0::nat) = 0 \<and> (0::real) = 0)
        \<or> (0 < (0::nat) \<and> 0 \<le> length ex \<and> hit_time (ex ! (0 - 1)) = Fin 0)" by simp
    from advance_loop_corridor [OF lh sorted sound root complete refl refl rails spd inb z d prev]
    show ?thesis by (simp add: r_def)
  next
    case False
    then have c: "c_acc m = Fin 0" "c_jrk m = Fin 0" using m by simp_all
    have "\<forall>h \<in> set ex. hit_time h = PInf"
      using time_to_speed_constant [OF m(1,2) c] b
      by (simp add: ex_def set_sort_hits corridor_hits_def)
    from advance_loop_never [OF this] have "r = (Fin 0, m)" by (simp add: r_def)
    with m v show ?thesis by simp
  qed
  then obtain u where u: "c_spd (snd r) = Fin u" "lo \<le> u" "u \<le> hi" "MT (snd r) = jerked"
    by blast
  have "get_speed (SpeedLimitedMotion_advance (Fin d) m) = get_speed (snd r)"
    unfolding adv using uniform_advance_speed [OF u(4)] by simp
  also have "\<dots> = Fin u" using u by (simp add: motion_defs)
  finally show ?thesis using u by blast
qed


section \<open>Results about the reel controller\<close>

lemma reel_docked_built:
  "map_option (ReelMotion_set_max_speed (Fin 15) \<circ> ReelMotion_set_min_speed (Fin (3 / 2)))
     (ReelMotion_new (Fin 16)) = Some reel_docked"
  by (simp add: ReelMotion_new_def reel_docked_def ReelMotion_set_max_speed_def
      ReelMotion_set_min_speed_def)

lemma slow_to_minimal_in_effect:
  "\<not> feq t (Fin 0) \<Longrightarrow>
   \<exists>r'. slow_to_minimal_in t r = Some r' \<and> get_min_speed r' = m_min_speed_proxy r
     \<and> (MT r = jerked \<longrightarrow> get_acceleration r' = (m_min_speed_proxy r - get_speed r) / t)
     \<and> m_state r' = m_state r"
  by (simp add: slow_to_minimal_in_def nccry_acc_to_speed_def AcceleratedMotion_def motion_defs
      get_min_speed_def Let_def)

text \<open>
  Claim C7, at a reel at rest. \<open>slow_to_minimal_in(1)\<close> on \<open>reel_docked\<close> sets the
  active minimum to the floor \<open>3/2\<close> and the acceleration to \<open>(3/2 - 0)/1\<close>, and leaves
  the state \<open>rest\<close>: it does not enter \<open>had_impact\<close> as \<open>go_full_speed_in\<close> does, and
  the next \<open>advance\<close> leaves the reel where it is.
\<close>

theorem slow_to_minimal_in_stays_at_rest:
  "slow_to_minimal_in (Fin 1) reel_docked
     = Some (reel_docked\<lparr>m_min_speed := Fin (3 / 2), c_acc := Fin (3 / 2)\<rparr>)
   \<and> map_option m_state (slow_to_minimal_in (Fin 1) reel_docked) = Some rest
   \<and> map_option m_state (go_full_speed_in (Fin 1) reel_docked) = Some had_impact
   \<and> map_option (ReelMotion_advance (Fin 1)) (slow_to_minimal_in (Fin 1) reel_docked)
       = slow_to_minimal_in (Fin 1) reel_docked"
  by (simp add: slow_to_minimal_in_def go_full_speed_in_def reel_docked_def
      nccry_acc_to_speed_def AcceleratedMotion_def motion_defs ReelMotion_advance_def Let_def)


lemma time_to_speed_frame:
  fixes upd :: "'a SpeedLimitedMotion_scheme \<Rightarrow> 'b SpeedLimitedMotion_scheme"
  assumes "MT (upd m) = MT m" "c_spd (upd m) = c_spd m" "c_acc (upd m) = c_acc m"
    "c_jrk (upd m) = c_jrk m"
  shows "time_to_speed v1 (upd m) = time_to_speed v1 m"
proof -
  have g: "get_speed (upd m) = get_speed m" "get_acceleration (upd m) = get_acceleration m"
    "get_jerk (upd m) = get_jerk m"
    by (simp_all add: motion_defs assms)
  show ?thesis unfolding time_to_speed_def by (simp only: g assms(1))
qed

lemma advance_loop_frame:
  fixes upd :: "'a SpeedLimitedMotion_scheme \<Rightarrow> 'a SpeedLimitedMotion_scheme"
  assumes get: "\<And>m. MT (upd m) = MT m" "\<And>m. c_pos (upd m) = c_pos m"
      "\<And>m. c_spd (upd m) = c_spd m" "\<And>m. c_acc (upd m) = c_acc m"
      "\<And>m. c_jrk (upd m) = c_jrk m" "\<And>m. m_max_speed (upd m) = m_max_speed m"
      "\<And>m. m_min_speed (upd m) = m_min_speed m"
    and set: "\<And>m x. upd (m\<lparr>c_pos := x\<rparr>) = (upd m)\<lparr>c_pos := x\<rparr>"
      "\<And>m x. upd (m\<lparr>c_spd := x\<rparr>) = (upd m)\<lparr>c_spd := x\<rparr>"
      "\<And>m x. upd (m\<lparr>c_acc := x\<rparr>) = (upd m)\<lparr>c_acc := x\<rparr>"
  shows "advance_loop ex dt i p (upd m) = apsnd upd (advance_loop ex dt i p m)"
proof -
  have ua: "uniform_advance t (upd m) = upd (uniform_advance t m)" for t m
    by (simp add: uniform_advance_def motion_defs get set)
  have ma: "Motion_advance t (upd m) = upd (Motion_advance t m)" for t m
    by (simp add: Motion_advance_def motion_defs get set Let_def)
  have ss: "set_speed x (upd m) = upd (set_speed x m)" for x m
    by (simp add: motion_defs get set)
  have gs: "get_speed (upd m) = get_speed m" "get_jerk (upd m) = get_jerk m" for m
    by (simp_all add: motion_defs get)
  have step: "advance_step ex dt i p (upd m) = upd (advance_step ex dt i p m)" for ex dt i p m
    by (simp add: advance_step_def Let_def ua ma ss gs get if_distrib [where f = upd]
        cong: if_cong split del: if_split)
  show ?thesis
  proof (induction ex dt i p m rule: advance_loop.induct)
    case (1 ex dt i p m)
    show ?case
      using 1 by (subst advance_loop.simps, subst (2) advance_loop.simps) (simp add: step)
  qed
qed

lemma SpeedLimitedMotion_advance_frame:
  fixes upd :: "'a SpeedLimitedMotion_scheme \<Rightarrow> 'a SpeedLimitedMotion_scheme"
  assumes get: "\<And>m. MT (upd m) = MT m" "\<And>m. c_pos (upd m) = c_pos m"
      "\<And>m. c_spd (upd m) = c_spd m" "\<And>m. c_acc (upd m) = c_acc m"
      "\<And>m. c_jrk (upd m) = c_jrk m" "\<And>m. m_max_speed (upd m) = m_max_speed m"
      "\<And>m. m_min_speed (upd m) = m_min_speed m"
    and set: "\<And>m x. upd (m\<lparr>c_pos := x\<rparr>) = (upd m)\<lparr>c_pos := x\<rparr>"
      "\<And>m x. upd (m\<lparr>c_spd := x\<rparr>) = (upd m)\<lparr>c_spd := x\<rparr>"
      "\<And>m x. upd (m\<lparr>c_acc := x\<rparr>) = (upd m)\<lparr>c_acc := x\<rparr>"
  shows "SpeedLimitedMotion_advance dt (upd m) = upd (SpeedLimitedMotion_advance dt m)"
proof -
  have ua: "uniform_advance t (upd m) = upd (uniform_advance t m)" for t m
    by (simp add: uniform_advance_def motion_defs get set)
  have tts: "time_to_speed v1 (upd m) = time_to_speed v1 m" for v1
    by (rule time_to_speed_frame) (simp_all add: get)
  show ?thesis
    by (simp add: SpeedLimitedMotion_advance_def tts get advance_loop_frame [OF get set]
        split_beta ua Let_def)
qed

lemma ReelMotion_advance_frame:
  fixes upd :: "ReelMotion \<Rightarrow> ReelMotion"
  assumes get: "\<And>m. MT (upd m) = MT m" "\<And>m. c_pos (upd m) = c_pos m"
      "\<And>m. c_spd (upd m) = c_spd m" "\<And>m. c_acc (upd m) = c_acc m"
      "\<And>m. c_jrk (upd m) = c_jrk m" "\<And>m. m_max_speed (upd m) = m_max_speed m"
      "\<And>m. m_min_speed (upd m) = m_min_speed m"
    and set: "\<And>m x. upd (m\<lparr>c_pos := x\<rparr>) = (upd m)\<lparr>c_pos := x\<rparr>"
      "\<And>m x. upd (m\<lparr>c_spd := x\<rparr>) = (upd m)\<lparr>c_spd := x\<rparr>"
      "\<And>m x. upd (m\<lparr>c_acc := x\<rparr>) = (upd m)\<lparr>c_acc := x\<rparr>"
    and reel: "\<And>m. m_state (upd m) = m_state m" "\<And>m. m_length (upd m) = m_length m"
      "\<And>m x. upd (m\<lparr>c_jrk := x\<rparr>) = (upd m)\<lparr>c_jrk := x\<rparr>"
      "\<And>m x. upd (m\<lparr>m_state := x\<rparr>) = (upd m)\<lparr>m_state := x\<rparr>"
  shows "ReelMotion_advance dt (upd r) = upd (ReelMotion_advance dt r)"
proof -
  have sa: "SpeedLimitedMotion_advance t (upd m) = upd (SpeedLimitedMotion_advance t m)" for t m
    by (rule SpeedLimitedMotion_advance_frame [OF get set])
  have fs: "full_stop (upd m) = upd (full_stop m)" for m
    by (simp add: full_stop_def motion_defs get set reel Let_def)
  have tts: "time_to_speed v1 (upd m) = time_to_speed v1 m" for v1 m
    by (rule time_to_speed_frame) (simp_all add: get)
  show ?thesis
    by (simp add: ReelMotion_advance_def sa fs tts get set reel motion_defs get_max_speed_def
        Let_def split: State.split)
qed

text \<open>
  Claim C10. \<open>ReelMotion::set_max_speed(v)\<close> and \<open>set_min_speed(v)\<close> store \<open>v\<close> in the
  proxy field and change nothing else: the bounds read by \<open>get_max_speed\<close> and
  \<open>get_min_speed\<close> (the ones \<open>advance\<close> uses) and the rest of the state are as before.
  \<open>advance\<close>, \<open>stop_in\<close>, \<open>set_reel_length\<close> and the other ramp operation do the same
  with the new proxy as with the old one. The stored maximum becomes the active bound
  in \<open>go_full_speed_in\<close>, the stored minimum in \<open>slow_to_minimal_in\<close>.
\<close>

theorem speed_bound_setters_deferred:
  "get_max_speed (ReelMotion_set_max_speed v r) = get_max_speed r
   \<and> get_min_speed (ReelMotion_set_max_speed v r) = get_min_speed r
   \<and> get_max_speed (ReelMotion_set_min_speed v r) = get_max_speed r
   \<and> get_min_speed (ReelMotion_set_min_speed v r) = get_min_speed r
   \<and> ReelMotion_set_max_speed v r = r\<lparr>m_max_speed_proxy := v\<rparr>
   \<and> ReelMotion_set_min_speed v r = r\<lparr>m_min_speed_proxy := v\<rparr>
   \<and> ReelMotion_advance dt (ReelMotion_set_max_speed v r)
       = ReelMotion_set_max_speed v (ReelMotion_advance dt r)
   \<and> ReelMotion_advance dt (ReelMotion_set_min_speed v r)
       = ReelMotion_set_min_speed v (ReelMotion_advance dt r)
   \<and> stop_in s1 t (ReelMotion_set_max_speed v r)
       = map_option (ReelMotion_set_max_speed v) (stop_in s1 t r)
   \<and> stop_in s1 t (ReelMotion_set_min_speed v r)
       = map_option (ReelMotion_set_min_speed v) (stop_in s1 t r)
   \<and> slow_to_minimal_in t (ReelMotion_set_max_speed v r)
       = map_option (ReelMotion_set_max_speed v) (slow_to_minimal_in t r)
   \<and> go_full_speed_in t (ReelMotion_set_min_speed v r)
       = map_option (ReelMotion_set_min_speed v) (go_full_speed_in t r)
   \<and> set_reel_length l (ReelMotion_set_max_speed v r)
       = map_option (ReelMotion_set_max_speed v) (set_reel_length l r)
   \<and> set_reel_length l (ReelMotion_set_min_speed v r)
       = map_option (ReelMotion_set_min_speed v) (set_reel_length l r)
   \<and> map_option get_max_speed (go_full_speed_in t (ReelMotion_set_max_speed v r))
       = (if feq t (Fin 0) then None else Some v)
   \<and> map_option get_min_speed (slow_to_minimal_in t (ReelMotion_set_min_speed v r))
       = (if feq t (Fin 0) then None else Some v)"
proof -
  have a1: "ReelMotion_advance dt (ReelMotion_set_max_speed v r)
       = ReelMotion_set_max_speed v (ReelMotion_advance dt r)"
    by (rule ReelMotion_advance_frame) (simp_all add: ReelMotion_set_max_speed_def)
  have a2: "ReelMotion_advance dt (ReelMotion_set_min_speed v r)
       = ReelMotion_set_min_speed v (ReelMotion_advance dt r)"
    by (rule ReelMotion_advance_frame) (simp_all add: ReelMotion_set_min_speed_def)
  show ?thesis
    unfolding a1 a2
    by (simp add: ReelMotion_set_max_speed_def ReelMotion_set_min_speed_def get_max_speed_def
        get_min_speed_def stop_in_def slow_to_minimal_in_def go_full_speed_in_def
        set_reel_length_def nccry_acc_to_speed_def AcceleratedMotion_def motion_defs Let_def)
qed


section \<open>Results about the full stop\<close>























section \<open>Results about the combination resolver\<close>

text \<open>
  Claim C9. For the row \<open>[apple, apple, cross, apple, apple]\<close> the ranges are the runs
  of sizes 2, 1, 2; the wildcard pass changes nothing; the disruptor pass caps both
  neighbours of the cross to size 1; the family pass changes nothing, so every range
  has size 1, below the cutoff \<open>(5 + 1) div 2 = 3\<close>; the result has 0 points and no
  free spin.
\<close>

theorem cross_breaks_apples:
  "Combination_new [apple, apple, cross, apple, apple]
     = Some \<lparr>m_row = [apple, apple, cross, apple, apple],
             m_ranges = [\<lparr>r_begin = 0, r_size = 2\<rparr>, \<lparr>r_begin = 2, r_size = 1\<rparr>,
                         \<lparr>r_begin = 3, r_size = 2\<rparr>]\<rparr>
   \<and> map_option m_ranges
        (Combination_new [apple, apple, cross, apple, apple] \<bind> apply_questions)
     = Some [\<lparr>r_begin = 0, r_size = 2\<rparr>, \<lparr>r_begin = 2, r_size = 1\<rparr>,
             \<lparr>r_begin = 3, r_size = 2\<rparr>]
   \<and> map_option m_ranges
        (Combination_new [apple, apple, cross, apple, apple] \<bind> apply_questions
           \<bind> apply_crosses)
     = Some [\<lparr>r_begin = 0, r_size = 1\<rparr>, \<lparr>r_begin = 2, r_size = 1\<rparr>,
             \<lparr>r_begin = 3, r_size = 1\<rparr>]
   \<and> map_option m_ranges
        (Combination_new [apple, apple, cross, apple, apple] \<bind> apply_questions
           \<bind> apply_crosses \<bind> apply_family_symbols)
     = Some [\<lparr>r_begin = 0, r_size = 1\<rparr>, \<lparr>r_begin = 2, r_size = 1\<rparr>,
             \<lparr>r_begin = 3, r_size = 1\<rparr>]
   \<and> (g_nreels + 1) div 2 = 3
   \<and> (Combination_new [apple, apple, cross, apple, apple] \<bind> get_result)
     = Some \<lparr>combo_range = \<lparr>r_begin = 0, r_size = 1\<rparr>, points = 0, free_speen = False\<rparr>"
  by code_simp









lemma ranges_wild_built: "get_ranges row_wild = Some ranges_wild"
  unfolding row_wild_def ranges_wild_def by code_simp


end
